theory Spec2Isabelle
  imports Complex_Main "HOL-Library.Sublist" "HOL-Library.AList" "HOL-Library.Char_ord"
    "HOL-Library.List_Lexorder" "HOL-Library.Product_Lexorder"
begin

section \<open>Python strings\<close>

text \<open>
  A Python \<open>str\<close> is modelled as a \<^typ>\<open>string\<close>: the list of its code points, restricted to
  the code points below 256 (Latin-1). On that range \<open>str.lower\<close> maps one character to one
  character and \<open>str.isspace\<close> holds of twelve code points; both tables are written out.
  Beyond that range \<open>str.lower\<close> can change the length of a string (U+0130 becomes two
  code points); such strings are outside this model, and every statement below is about
  strings of code points below 256.
\<close>

definition isspace :: "char \<Rightarrow> bool" where
  "isspace c = ((of_char c :: nat) \<in> {9, 10, 11, 12, 13, 28, 29, 30, 31, 32, 133, 160})"

definition strip :: "string \<Rightarrow> string" where
  "strip s = rev (dropWhile isspace (rev (dropWhile isspace s)))"

definition lower_char :: "char \<Rightarrow> char" where
  "lower_char c =
     (let n = (of_char c :: nat)
      in if (65 \<le> n \<and> n \<le> 90) \<or> (192 \<le> n \<and> n \<le> 222 \<and> n \<noteq> 215)
         then char_of (n + 32) else c)"

definition lower :: "string \<Rightarrow> string" where
  "lower s = map lower_char s"

text \<open>\<open>s.replace(old, new)\<close>: every non-overlapping occurrence, leftmost first.\<close>

function replace :: "string \<Rightarrow> string \<Rightarrow> string \<Rightarrow> string" where
  "replace old new s =
     (if old = [] then new @ concat (map (\<lambda>c. c # new) s)
      else if s = [] then []
      else if prefix old s then new @ replace old new (drop (length old) s)
      else hd s # replace old new (tl s))"
  by pat_completeness auto
termination
  by (relation "measure (\<lambda>(old, new, s). length s)") auto

declare replace.simps [simp del]

text \<open>\<open>sub in s\<close> on strings is the contiguous-sublist test \<^const>\<open>sublist\<close>.\<close>

text \<open>\<open>s.find(sub)\<close>: the lowest index where \<open>sub\<close> starts in \<open>s\<close>, or \<open>-1\<close>.\<close>

fun find_from :: "nat \<Rightarrow> string \<Rightarrow> string \<Rightarrow> int" where
  "find_from i sub [] = (if sub = [] then int i else - 1)"
| "find_from i sub (c # cs) = (if prefix sub (c # cs) then int i else find_from (Suc i) sub cs)"

definition find :: "string \<Rightarrow> string \<Rightarrow> int" where
  "find s sub = find_from 0 sub s"

text \<open>\<open>s[start:end]\<close> for \<open>0 \<le> start\<close> and \<open>0 \<le> end\<close>.\<close>

definition slice :: "string \<Rightarrow> int \<Rightarrow> int \<Rightarrow> string" where
  "slice s start end = take (nat end - nat start) (drop (nat start) s)"

text \<open>\<open>sep.join(xs)\<close>.\<close>

fun join :: "string \<Rightarrow> string list \<Rightarrow> string" where
  "join sep [] = []"
| "join sep [x] = x"
| "join sep (x # y # ys) = x @ sep @ join sep (y # ys)"

section \<open>search_engine.py: helpers\<close>

text \<open>The loop \<open>while "__" in t: t = t.replace("__", "_")\<close> of \<open>normalize_key\<close>.\<close>

lemma replace_uu_Nil: "replace ''__'' ''_'' [] = []"
  by (simp add: replace.simps)

lemma replace_uu_prefix:
  "prefix ''__'' s \<Longrightarrow> replace ''__'' ''_'' s = CHR ''_'' # replace ''__'' ''_'' (drop 2 s)"
  by (subst replace.simps) (auto simp: numeral_2_eq_2)

lemma replace_uu_Cons:
  "\<not> prefix ''__'' (c # cs) \<Longrightarrow> replace ''__'' ''_'' (c # cs) = c # replace ''__'' ''_'' cs"
  using replace.simps [of "''__''" "''_''" "c # cs"] by (simp del: Cons_prefix_Cons)

lemma length_replace_uu:
  "length (replace ''__'' ''_'' t) \<le> length t
   \<and> (sublist ''__'' t \<longrightarrow> length (replace ''__'' ''_'' t) < length t)"
proof (induction t rule: length_induct)
  case (1 s)
  show ?case
  proof (cases s)
    case Nil
    then show ?thesis by (simp add: replace_uu_Nil)
  next
    case (Cons c cs)
    show ?thesis
    proof (cases "prefix ''__'' s")
      case True
      then have len: "2 \<le> length s"
        by (auto simp: prefix_def)
      then have "length (drop 2 s) < length s" by simp
      with 1 have "length (replace ''__'' ''_'' (drop 2 s)) \<le> length (drop 2 s)"
        by blast
      with len have "Suc (length (replace ''__'' ''_'' (drop 2 s))) < length s"
        by simp
      then show ?thesis
        by (simp add: replace_uu_prefix [OF True])
    next
      case False
      from 1 Cons have ih: "length (replace ''__'' ''_'' cs) \<le> length cs"
        "sublist ''__'' cs \<longrightarrow> length (replace ''__'' ''_'' cs) < length cs"
        by simp_all
      from False Cons have "sublist ''__'' s \<longrightarrow> sublist ''__'' cs"
        by (simp add: sublist_Cons_right del: Cons_prefix_Cons)
      moreover from False Cons have "replace ''__'' ''_'' s = c # replace ''__'' ''_'' cs"
        by (simp add: replace_uu_Cons del: Cons_prefix_Cons)
      ultimately show ?thesis using ih Cons
        by auto
    qed
  qed
qed

function collapse :: "string \<Rightarrow> string" where
  "collapse t = (if sublist ''__'' t then collapse (replace ''__'' ''_'' t) else t)"
  by pat_completeness auto
termination
  by (relation "measure length") (auto simp: length_replace_uu)

declare collapse.simps [simp del]

definition normalize_key :: "string \<Rightarrow> string" where
  "normalize_key text =
     collapse (replace ''/'' ''_'' (replace ''-'' ''_'' (replace '' '' ''_'' (lower (strip text)))))"

section \<open>difflib: SequenceMatcher and get_close_matches\<close>

text \<open>
  The standard library's \<open>SequenceMatcher(isjunk=None, a, b, autojunk=True)\<close>, the only way the
  search engine builds one. A similarity score is \<open>2.0 * matches / length\<close>, a quotient of two
  small integers; it is modelled by the exact rational, and the cutoff likewise. Python rounds
  each quotient once, to the nearest double; rounding is monotone, and two different quotients
  of integers below \<open>2^26\<close> lie too far apart to round to the same double, so every
  comparison of scores comes out as on the rationals.
\<close>

definition calculate_ratio :: "nat \<Rightarrow> nat \<Rightarrow> rat" where
  "calculate_ratio matches len = (if len \<noteq> 0 then 2 * of_nat matches / of_nat len else 1)"

text \<open>
  \<open>__chain_b\<close>: \<open>b2j\<close> maps an element of \<open>b\<close> to the indices where it occurs, in increasing
  order. No element is junk. When \<open>b\<close> has 200 elements or more, the elements that occur more
  than \<open>len(b) // 100 + 1\<close> times are popular and are deleted from \<open>b2j\<close>.
\<close>

definition indices :: "string \<Rightarrow> char \<Rightarrow> nat list" where
  "indices b elt = filter (\<lambda>i. b ! i = elt) [0..<length b]"

definition popular :: "string \<Rightarrow> char \<Rightarrow> bool" where
  "popular b elt = (length b \<ge> 200 \<and> length (indices b elt) > length b div 100 + 1)"

definition b2j :: "string \<Rightarrow> char \<Rightarrow> nat list" where
  "b2j b elt = (if popular b elt then [] else indices b elt)"

definition isbjunk :: "char \<Rightarrow> bool" where
  "isbjunk elt = False"

text \<open>
  \<open>find_longest_match(alo, ahi, blo, bhi)\<close>. A match is the triple \<open>(i, j, size)\<close>. The
  dictionary \<open>j2len\<close> is an association list; \<open>j2len.get(j - 1, 0)\<close> finds nothing for \<open>j = 0\<close>.
  In the inner loop \<open>k \<le> i + 1\<close> and \<open>k \<le> j + 1\<close>, so \<open>i - k + 1\<close> is never negative.
\<close>

type_synonym match = "nat \<times> nat \<times> nat"

definition j2lenget :: "(nat \<times> nat) list \<Rightarrow> nat \<Rightarrow> nat" where
  "j2lenget j2len j =
     (if j = 0 then 0 else case map_of j2len (j - 1) of None \<Rightarrow> 0 | Some k \<Rightarrow> k)"

fun flm_inner ::
  "(nat \<times> nat) list \<Rightarrow> nat \<Rightarrow> nat list \<Rightarrow> (nat \<times> nat) list \<times> match \<Rightarrow> (nat \<times> nat) list \<times> match" where
  "flm_inner j2len i [] st = st"
| "flm_inner j2len i (j # js) (newj2len, best) =
     (let k = j2lenget j2len j + 1
      in flm_inner j2len i js
           (AList.update j k newj2len,
            if k > snd (snd best) then (i + 1 - k, j + 1 - k, k) else best))"

fun flm_outer ::
  "string \<Rightarrow> string \<Rightarrow> nat \<Rightarrow> nat \<Rightarrow> nat list \<Rightarrow> (nat \<times> nat) list \<times> match \<Rightarrow> (nat \<times> nat) list \<times> match" where
  "flm_outer a b blo bhi [] st = st"
| "flm_outer a b blo bhi (i # rest) (j2len, best) =
     flm_outer a b blo bhi rest
       (flm_inner j2len i
          (filter (\<lambda>j. blo \<le> j) (takeWhile (\<lambda>j. j < bhi) (b2j b (a ! i)))) ([], best))"

function extend_left :: "(char \<Rightarrow> bool) \<Rightarrow> string \<Rightarrow> string \<Rightarrow> nat \<Rightarrow> nat \<Rightarrow> match \<Rightarrow> match" where
  "extend_left P a b alo blo (besti, bestj, bestsize) =
     (if besti > alo \<and> bestj > blo \<and> P (b ! (bestj - 1)) \<and> a ! (besti - 1) = b ! (bestj - 1)
      then extend_left P a b alo blo (besti - 1, bestj - 1, bestsize + 1)
      else (besti, bestj, bestsize))"
  by pat_completeness auto
termination
  by (relation "measure (\<lambda>(P, a, b, alo, blo, besti, bestj, bestsize). besti)") auto

function extend_right :: "(char \<Rightarrow> bool) \<Rightarrow> string \<Rightarrow> string \<Rightarrow> nat \<Rightarrow> nat \<Rightarrow> match \<Rightarrow> match" where
  "extend_right P a b ahi bhi (besti, bestj, bestsize) =
     (if besti + bestsize < ahi \<and> bestj + bestsize < bhi \<and> P (b ! (bestj + bestsize))
         \<and> a ! (besti + bestsize) = b ! (bestj + bestsize)
      then extend_right P a b ahi bhi (besti, bestj, bestsize + 1)
      else (besti, bestj, bestsize))"
  by pat_completeness auto
termination
  by (relation "measure (\<lambda>(P, a, b, ahi, bhi, besti, bestj, bestsize). ahi - (besti + bestsize))") auto

declare extend_left.simps [simp del] extend_right.simps [simp del]

definition find_longest_match :: "string \<Rightarrow> string \<Rightarrow> nat \<Rightarrow> nat \<Rightarrow> nat \<Rightarrow> nat \<Rightarrow> match" where
  "find_longest_match a b alo ahi blo bhi =
     (let best = snd (flm_outer a b blo bhi [alo..<ahi] ([], (alo, blo, 0)));
          best = extend_left (\<lambda>elt. \<not> isbjunk elt) a b alo blo best;
          best = extend_right (\<lambda>elt. \<not> isbjunk elt) a b ahi bhi best;
          best = extend_left isbjunk a b alo blo best;
          best = extend_right isbjunk a b ahi bhi best
      in best)"


text \<open>The invariant of the two loops of \<open>find_longest_match\<close>, after row \<open>i - 1\<close>.\<close>

definition flm_inv :: "nat \<Rightarrow> nat \<Rightarrow> (nat \<times> nat) list \<times> match \<Rightarrow> bool" where
  "flm_inv alo i st =
     ((\<forall>j k. map_of (fst st) j = Some k \<longrightarrow> k + alo \<le> i)
      \<and> alo \<le> fst (snd st) \<and> fst (snd st) + snd (snd (snd st)) \<le> i)"

lemma j2lenget_le:
  "\<forall>j k. map_of j2len j = Some k \<longrightarrow> k + alo \<le> i \<Longrightarrow> alo \<le> i \<Longrightarrow> j2lenget j2len j + alo \<le> i"
  by (auto simp: j2lenget_def split: option.splits)

lemma flm_inner_inv:
  assumes "\<forall>j k. map_of j2len j = Some k \<longrightarrow> k + alo \<le> i" and "alo \<le> i"
  shows "flm_inv alo (Suc i) st \<Longrightarrow> flm_inv alo (Suc i) (flm_inner j2len i js st)"
proof (induction js arbitrary: st)
  case Nil
  then show ?case by simp
next
  case (Cons j js)
  obtain nj best where st: "st = (nj, best)" by (cases st)
  let ?k = "j2lenget j2len j + 1"
  have k: "?k + alo \<le> Suc i"
    using j2lenget_le [OF assms, of j] by simp
  have "flm_inv alo (Suc i)
          (AList.update j ?k nj, if ?k > snd (snd best) then (i + 1 - ?k, j + 1 - ?k, ?k) else best)"
    using Cons.prems k unfolding st flm_inv_def
    by (auto simp: update_conv')
  from Cons.IH [OF this] show ?case
    by (simp add: st Let_def split: if_splits)
qed

lemma flm_outer_inv:
  "flm_inv alo i st \<Longrightarrow> alo \<le> i \<Longrightarrow> i \<le> ahi
    \<Longrightarrow> flm_inv alo ahi (flm_outer a b blo bhi [i..<ahi] st)"
proof (induction "ahi - i" arbitrary: i st)
  case 0
  then show ?case by simp
next
  case (Suc n)
  obtain j2len best where st: "st = (j2len, best)" by (cases st)
  from Suc.hyps(2) have lt: "i < ahi" by simp
  let ?js = "filter (\<lambda>j. blo \<le> j) (takeWhile (\<lambda>j. j < bhi) (b2j b (a ! i)))"
  have start: "flm_inv alo (Suc i) ([], best)"
    using Suc.prems(1) unfolding st flm_inv_def by auto
  have j2: "\<forall>j k. map_of j2len j = Some k \<longrightarrow> k + alo \<le> i"
    using Suc.prems(1) unfolding st flm_inv_def by simp
  have "flm_inv alo (Suc i) (flm_inner j2len i ?js ([], best))"
    by (rule flm_inner_inv [OF j2 Suc.prems(2) start])
  moreover have "n = ahi - Suc i" using Suc.hyps(2) by simp
  ultimately have "flm_inv alo ahi (flm_outer a b blo bhi [Suc i..<ahi] (flm_inner j2len i ?js ([], best)))"
    using Suc.hyps(1) Suc.prems(2) lt by simp
  then show ?case
    using lt by (simp add: upt_conv_Cons st)
qed

lemma extend_left_bounds:
  "alo \<le> fst m \<Longrightarrow>
     alo \<le> fst (extend_left P a b alo blo m)
     \<and> fst (extend_left P a b alo blo m) + snd (snd (extend_left P a b alo blo m)) = fst m + snd (snd m)
     \<and> snd (snd m) \<le> snd (snd (extend_left P a b alo blo m))"
proof (induction P a b alo blo m rule: extend_left.induct)
  case (1 P a b alo blo besti bestj bestsize)
  show ?case
  proof (cases "besti > alo \<and> bestj > blo \<and> P (b ! (bestj - 1)) \<and> a ! (besti - 1) = b ! (bestj - 1)")
    case True
    then have "alo \<le> fst (besti - 1, bestj - 1, bestsize + 1)" by auto
    from 1(1) [OF True this] True show ?thesis
      by (auto simp: extend_left.simps [of P a b alo blo besti bestj bestsize])
  next
    case False
    with 1(2) show ?thesis
      by (auto simp: extend_left.simps [of P a b alo blo besti bestj bestsize])
  qed
qed

lemma extend_right_bounds:
  "fst m + snd (snd m) \<le> ahi \<Longrightarrow>
     fst (extend_right P a b ahi bhi m) = fst m
     \<and> fst (extend_right P a b ahi bhi m) + snd (snd (extend_right P a b ahi bhi m)) \<le> ahi
     \<and> snd (snd m) \<le> snd (snd (extend_right P a b ahi bhi m))"
proof (induction P a b ahi bhi m rule: extend_right.induct)
  case (1 P a b ahi bhi besti bestj bestsize)
  show ?case
  proof (cases "besti + bestsize < ahi \<and> bestj + bestsize < bhi \<and> P (b ! (bestj + bestsize))
         \<and> a ! (besti + bestsize) = b ! (bestj + bestsize)")
    case True
    then have "fst (besti, bestj, bestsize + 1) + snd (snd (besti, bestj, bestsize + 1)) \<le> ahi" by auto
    from 1(1) [OF True this] True show ?thesis
      by (auto simp: extend_right.simps [of P a b ahi bhi besti bestj bestsize])
  next
    case False
    with 1(2) show ?thesis
      by (auto simp: extend_right.simps [of P a b ahi bhi besti bestj bestsize])
  qed
qed


lemma find_longest_match_bounds:
  assumes "find_longest_match a b alo ahi blo bhi = (i, j, k)" and "k \<noteq> 0"
  shows "alo \<le> i \<and> i + k \<le> ahi"
proof (cases "alo \<le> ahi")
  case True
  define m0 where "m0 = snd (flm_outer a b blo bhi [alo..<ahi] ([], (alo, blo, 0)))"
  define m1 where "m1 = extend_left (\<lambda>elt. \<not> isbjunk elt) a b alo blo m0"
  define m2 where "m2 = extend_right (\<lambda>elt. \<not> isbjunk elt) a b ahi bhi m1"
  define m3 where "m3 = extend_left isbjunk a b alo blo m2"
  define m4 where "m4 = extend_right isbjunk a b ahi bhi m3"
  have "flm_inv alo alo ([], (alo, blo, 0))"
    by (simp add: flm_inv_def)
  from flm_outer_inv [OF this _ True, of a b blo bhi]
  have b0: "alo \<le> fst m0" "fst m0 + snd (snd m0) \<le> ahi"
    by (simp_all add: flm_inv_def m0_def)
  from extend_left_bounds [OF b0(1), of "\<lambda>elt. \<not> isbjunk elt" a b blo] b0(2)
  have b1: "alo \<le> fst m1" "fst m1 + snd (snd m1) \<le> ahi"
    by (simp_all add: m1_def)
  from extend_right_bounds [OF b1(2), of "\<lambda>elt. \<not> isbjunk elt" a b bhi] b1(1)
  have b2: "alo \<le> fst m2" "fst m2 + snd (snd m2) \<le> ahi"
    by (simp_all add: m2_def)
  from extend_left_bounds [OF b2(1), of isbjunk a b blo] b2(2)
  have b3: "alo \<le> fst m3" "fst m3 + snd (snd m3) \<le> ahi"
    by (simp_all add: m3_def)
  from extend_right_bounds [OF b3(2), of isbjunk a b bhi] b3(1)
  have b4: "alo \<le> fst m4" "fst m4 + snd (snd m4) \<le> ahi"
    by (simp_all add: m4_def)
  have "find_longest_match a b alo ahi blo bhi = m4"
    by (simp add: find_longest_match_def Let_def m0_def m1_def m2_def m3_def m4_def)
  with assms(1) b4 show ?thesis by simp
next
  case False
  then have "find_longest_match a b alo ahi blo bhi = (alo, blo, 0)"
    by (simp add: find_longest_match_def Let_def extend_left.simps extend_right.simps)
  with assms show ?thesis by simp
qed

text \<open>
  The loop of \<open>get_matching_blocks\<close>. The list \<open>queue\<close> is held with its last element first:
  \<open>queue.pop()\<close> takes the head and \<open>queue.append\<close> conses.
\<close>

function matching_loop ::
  "string \<Rightarrow> string \<Rightarrow> (nat \<times> nat \<times> nat \<times> nat) list \<Rightarrow> match list \<Rightarrow> match list" where
  "matching_loop a b [] matching_blocks = matching_blocks"
| "matching_loop a b ((alo, ahi, blo, bhi) # queue) matching_blocks =
     (case find_longest_match a b alo ahi blo bhi of
        (i, j, k) \<Rightarrow>
          if k \<noteq> 0
          then matching_loop a b
                 ((if i + k < ahi \<and> j + k < bhi then [(i + k, ahi, j + k, bhi)] else [])
                  @ (if alo < i \<and> blo < j then [(alo, i, blo, j)] else []) @ queue)
                 (matching_blocks @ [(i, j, k)])
          else matching_loop a b queue matching_blocks)"
  by pat_completeness auto
termination
  apply (relation "measure (\<lambda>(a, b, queue, blocks). \<Sum>(alo, ahi, blo, bhi)\<leftarrow>queue. 2 * (ahi - alo) + 1)")
    apply simp_all
  subgoal for a b alo ahi blo bhi i y j k
    using find_longest_match_bounds [of a b alo ahi blo bhi i j k] by auto
  done


declare matching_loop.simps [simp del]

text \<open>The second loop of \<open>get_matching_blocks\<close>: adjacent blocks are merged.\<close>

fun collapse_adjacent :: "match \<Rightarrow> match list \<Rightarrow> match list \<Rightarrow> match list" where
  "collapse_adjacent (i1, j1, k1) non_adjacent [] =
     (if k1 \<noteq> 0 then non_adjacent @ [(i1, j1, k1)] else non_adjacent)"
| "collapse_adjacent (i1, j1, k1) non_adjacent ((i2, j2, k2) # rest) =
     (if i1 + k1 = i2 \<and> j1 + k1 = j2
      then collapse_adjacent (i1, j1, k1 + k2) non_adjacent rest
      else collapse_adjacent (i2, j2, k2)
             (if k1 \<noteq> 0 then non_adjacent @ [(i1, j1, k1)] else non_adjacent) rest)"

definition get_matching_blocks :: "string \<Rightarrow> string \<Rightarrow> match list" where
  "get_matching_blocks a b =
     (let la = length a; lb = length b;
          matching_blocks = sort (matching_loop a b [(0, la, 0, lb)] [])
      in collapse_adjacent (0, 0, 0) [] matching_blocks @ [(la, lb, 0)])"

definition ratio :: "string \<Rightarrow> string \<Rightarrow> rat" where
  "ratio a b =
     calculate_ratio (sum_list (map (\<lambda>triple. snd (snd triple)) (get_matching_blocks a b)))
       (length a + length b)"

text \<open>
  \<open>quick_ratio\<close>: \<open>fullbcount\<close> counts the elements of \<open>b\<close>; \<open>avail\<close> is the dictionary of the
  loop over \<open>a\<close>, whose values may become negative.
\<close>

fun quick_loop :: "string \<Rightarrow> string \<Rightarrow> (char \<times> int) list \<Rightarrow> nat \<Rightarrow> nat" where
  "quick_loop b [] avail matches = matches"
| "quick_loop b (elt # rest) avail matches =
     (let numb = (case map_of avail elt of Some n \<Rightarrow> n | None \<Rightarrow> int (count_list b elt))
      in quick_loop b rest (AList.update elt (numb - 1) avail)
           (if numb > 0 then matches + 1 else matches))"

definition quick_ratio :: "string \<Rightarrow> string \<Rightarrow> rat" where
  "quick_ratio a b = calculate_ratio (quick_loop b a [] 0) (length a + length b)"

definition real_quick_ratio :: "string \<Rightarrow> string \<Rightarrow> rat" where
  "real_quick_ratio a b =
     (let la = length a; lb = length b in calculate_ratio (min la lb) (la + lb))"

text \<open>
  \<open>heapq.nlargest(n, xs)\<close>, as its documentation defines it:
  \<open>sorted(xs, reverse=True)[:n]\<close>. Tuples compare lexicographically and strings by code point.
\<close>

definition nlargest :: "nat \<Rightarrow> ('a::linorder) list \<Rightarrow> 'a list" where
  "nlargest n xs = take n (rev (sort xs))"

datatype error = FileNotFoundError | ValueError | KeyError

text \<open>
  \<open>get_close_matches(word, possibilities, n, cutoff)\<close>: the matcher has \<open>word\<close> as its second
  sequence and each possibility \<open>x\<close> in turn as its first.
\<close>

definition get_close_matches :: "string \<Rightarrow> string list \<Rightarrow> int \<Rightarrow> rat \<Rightarrow> error + string list" where
  "get_close_matches word possibilities n cutoff =
     (if \<not> n > 0 then Inl ValueError
      else if \<not> (0 \<le> cutoff \<and> cutoff \<le> 1) then Inl ValueError
      else let result = map (\<lambda>x. (ratio x word, x))
                          (filter (\<lambda>x. real_quick_ratio x word \<ge> cutoff
                                       \<and> quick_ratio x word \<ge> cutoff
                                       \<and> ratio x word \<ge> cutoff) possibilities);
               result = nlargest (nat n) result
           in Inr (map snd result))"

section \<open>search_engine.py: helpers, continued\<close>

definition similarity :: "string \<Rightarrow> string \<Rightarrow> rat" where
  "similarity a b = (if a = [] \<or> b = [] then 0 else ratio (lower a) (lower b))"

definition snippet :: "string \<Rightarrow> string \<Rightarrow> nat \<Rightarrow> string" where
  "snippet text q w =
     (if text = [] then []
      else let idx = find (lower text) (lower q)
           in if idx = - 1 then take (w * 2) text @ ''...''
              else let start = max 0 (idx - int w);
                       end = min (int (length text)) (idx + int (length q) + int w);
                       s = slice text start end;
                       s = (if start > 0 then ''...'' @ s else s);
                       s = (if end < int (length text) then s @ ''...'' else s)
                   in s)"

section \<open>The knowledge graph\<close>

text \<open>
  One concept record of \<open>knowledge_graph.json\<close>: a JSON object whose members are all
  optional for the code, which reads each of them with \<open>.get(key, default)\<close>. The fields are
  the ones \<open>graph_builder.py\<close> writes.
\<close>

record concept =
  name :: "string option"
  ctype :: "string option"
  category :: "string option"
  basic_ops :: "string list option"
  principle :: "string option"
  description :: "string option"
  relations :: "string list option"
  use_cases :: "string list option"
  ident :: "string option"

text \<open>\<open>d.get(key, default)\<close> on a field.\<close>

definition get :: "'a option \<Rightarrow> 'a \<Rightarrow> 'a" where
  "get field dflt = (case field of None \<Rightarrow> dflt | Some v \<Rightarrow> v)"

text \<open>The truth value of a record: a Python dict is false exactly when it has no member.\<close>

definition truthy :: "concept \<Rightarrow> bool" where
  "truthy c = (name c \<noteq> None \<or> ctype c \<noteq> None \<or> category c \<noteq> None \<or> basic_ops c \<noteq> None
     \<or> principle c \<noteq> None \<or> description c \<noteq> None \<or> relations c \<noteq> None
     \<or> use_cases c \<noteq> None \<or> ident c \<noteq> None)"

text \<open>
  A loaded record is an object: its address and its contents. \<open>x is y\<close> compares addresses.
  A dict keeps its keys in insertion order, so a graph is an association list;
  \<open>d[k] = v\<close> is \<^const>\<open>AList.update\<close> (in place for a key already there, at the end for a new one)
  and \<open>d.get(k)\<close> is \<^const>\<open>map_of\<close>.
\<close>

type_synonym node = "nat \<times> concept"

definition is_same :: "node \<Rightarrow> node \<Rightarrow> bool" where
  "is_same x y = (fst x = fst y)"

type_synonym kgraph = "(string \<times> node) list"

text \<open>
  The file: the members of its top-level JSON object, in file order. \<open>json.load\<close> allocates a
  fresh object for each member, at the next free address, and stores it under its key.
\<close>

type_synonym json_file = "(string \<times> concept) list"

type_synonym filesystem = "string \<Rightarrow> json_file option"

fun json_load :: "json_file \<Rightarrow> nat \<Rightarrow> kgraph \<Rightarrow> kgraph \<times> nat" where
  "json_load [] a g = (g, a)"
| "json_load ((k, c) # members) a g = json_load members (Suc a) (AList.update k (a, c) g)"

section \<open>search_engine.py: KnowledgeGraphSearch\<close>

record KnowledgeGraphSearch =
  graph_file :: string
  graph :: kgraph
  concept_keys :: "string list"
  concept_names :: "string list"

text \<open>The constructor, from the file system and the next free address.\<close>

definition KnowledgeGraphSearch_init ::
  "filesystem \<Rightarrow> string \<Rightarrow> nat \<Rightarrow> error + (KnowledgeGraphSearch \<times> nat)" where
  "KnowledgeGraphSearch_init fs file a =
     (case fs file of
        None \<Rightarrow> Inl FileNotFoundError
      | Some members \<Rightarrow>
          (case json_load members a [] of
             (g, a') \<Rightarrow>
               Inr (\<lparr>graph_file = file, graph = g, concept_keys = map fst g,
                     concept_names = map (\<lambda>(k, d). get (name (snd d)) k) g\<rparr>, a')))"

definition exact_search :: "KnowledgeGraphSearch \<Rightarrow> string \<Rightarrow> node option" where
  "exact_search e q = map_of (graph e) (normalize_key q)"

record relation_hit =
  r_name :: string
  r_category :: string

definition relation_search :: "KnowledgeGraphSearch \<Rightarrow> string \<Rightarrow> (string \<times> relation_hit) list" where
  "relation_search e rel =
     (let r = lower rel
      in fold (\<lambda>(k, v) out.
                 let rels = map lower (get (relations (snd v)) [])
                 in if r \<in> set rels
                    then AList.update k \<lparr>r_name = get (name (snd v)) k,
                                          r_category = get (category (snd v)) ''unknown''\<rparr> out
                    else out)
              (graph e) [])"

record keyword_hit =
  k_name :: string
  k_snippet :: string

definition keyword_search :: "KnowledgeGraphSearch \<Rightarrow> string \<Rightarrow> (string \<times> keyword_hit) list" where
  "keyword_search e q =
     (let ql = lower q
      in fold (\<lambda>(k, v) res.
                 let name = get (name (snd v)) []; desc = get (description (snd v)) []
                 in if sublist ql (lower (name @ desc))
                    then AList.update k \<lparr>k_name = name, k_snippet = snippet desc q 60\<rparr> res
                    else res)
              (graph e) [])"

record fuzzy_hit =
  f_name :: string
  f_type :: string
  match_score :: rat

text \<open>The loop of \<open>fuzzy_search\<close> over the close matches; \<open>self.graph[k]\<close> raises on a missing key.\<close>

fun fuzzy_loop ::
  "kgraph \<Rightarrow> string \<Rightarrow> string list \<Rightarrow> (string \<times> fuzzy_hit) list \<Rightarrow> error + (string \<times> fuzzy_hit) list" where
  "fuzzy_loop g normq [] res = Inr res"
| "fuzzy_loop g normq (k # close) res =
     (case map_of g k of
        None \<Rightarrow> Inl KeyError
      | Some d \<Rightarrow>
          fuzzy_loop g normq close
            (AList.update k \<lparr>f_name = get (name (snd d)) k, f_type = get (ctype (snd d)) ''unknown'',
                              match_score = similarity normq k\<rparr> res))"

definition fuzzy_search ::
  "KnowledgeGraphSearch \<Rightarrow> string \<Rightarrow> int \<Rightarrow> rat \<Rightarrow> error + (string \<times> fuzzy_hit) list" where
  "fuzzy_search e q limit cutoff =
     (let normq = normalize_key q
      in case get_close_matches normq (concept_keys e) limit cutoff of
           Inl err \<Rightarrow> Inl err
         | Inr close \<Rightarrow> fuzzy_loop (graph e) normq close [])"

record composite =
  exact :: "node option"
  fuzzy :: "(string \<times> fuzzy_hit) list"
  related :: "(string \<times> relation_hit) list"
  keyword :: "(string \<times> keyword_hit) list"

text \<open>The fuzzy search runs with its defaults, \<open>limit=5\<close> and \<open>cutoff=0.6\<close>.\<close>

definition comprehensive_search :: "KnowledgeGraphSearch \<Rightarrow> string \<Rightarrow> error + composite" where
  "comprehensive_search e q =
     (case fuzzy_search e q 5 (3 / 5) of
        Inl err \<Rightarrow> Inl err
      | Inr f \<Rightarrow>
          Inr \<lparr>exact = exact_search e q, fuzzy = f, related = relation_search e q,
               keyword = keyword_search e q\<rparr>)"

section \<open>tutor_engine.py: DsaTutorEngine\<close>

record DsaTutorEngine =
  tutor_graph_file :: string
  kg :: kgraph
  engine :: KnowledgeGraphSearch

text \<open>
  The constructor loads the file once for \<open>self.kg\<close> and then builds the search engine, which
  loads it again.
\<close>

definition DsaTutorEngine_init ::
  "filesystem \<Rightarrow> string \<Rightarrow> nat \<Rightarrow> error + (DsaTutorEngine \<times> nat)" where
  "DsaTutorEngine_init fs file a =
     (case fs file of
        None \<Rightarrow> Inl FileNotFoundError
      | Some members \<Rightarrow>
          (case json_load members a [] of
             (g, a1) \<Rightarrow>
               (case KnowledgeGraphSearch_init fs file a1 of
                  Inl err \<Rightarrow> Inl err
                | Inr (e, a2) \<Rightarrow> Inr (\<lparr>tutor_graph_file = file, kg = g, engine = e\<rparr>, a2))))"

text \<open>
  The three pictographs of the source's messages lie outside Latin-1; each stands here as the
  four bytes of its UTF-8 encoding. \<open>textwrap.fill\<close> is a parameter of the formatter.
\<close>

definition blue_book :: string where
  "blue_book = [CHR 0xF0, CHR 0x9F, CHR 0x93, CHR 0x98]"

definition open_book :: string where
  "open_book = [CHR 0xF0, CHR 0x9F, CHR 0x93, CHR 0x96]"

definition light_bulb :: string where
  "light_bulb = [CHR 0xF0, CHR 0x9F, CHR 0x92, CHR 0xA1]"

definition backticked :: "string \<Rightarrow> string" where
  "backticked x = ''`'' @ x @ ''`''"

definition build_concept_explanation :: "(string \<Rightarrow> nat \<Rightarrow> string) \<Rightarrow> concept \<Rightarrow> string" where
  "build_concept_explanation fill c =
     (if \<not> truthy c then ''I could not find any information for this concept.''
      else let nm = get (name c) ''Unknown'';
               ct = get (ctype c) ''N/A'';
               cat = get (category c) ''N/A'';
               ops = get (basic_ops c) [];
               uses = get (use_cases c) [];
               rels = get (relations c) [];
               desc = strip (get (description c) []);
               lines = [''### '' @ blue_book @ '' '' @ nm, [],
                        ''- **Type:** '' @ backticked ct,
                        ''- **Category:** '' @ backticked cat];
               lines = (if ops \<noteq> []
                        then lines @ [''- **Core operations:** '' @ join '', '' (map backticked ops)]
                        else lines);
               lines = (if uses \<noteq> []
                        then lines @ [''- **Typical use cases:** '' @ join '', '' (map backticked uses)]
                        else lines);
               lines = (if rels \<noteq> []
                        then lines @ [''- **Relations / tags:** '' @ join '', '' (map backticked rels)]
                        else lines);
               lines = (if desc \<noteq> []
                        then lines @ [[], ''#### '' @ open_book @ '' Explanation'', fill desc 90]
                        else lines)
           in join [CHR 0x0A] lines)"

definition study_tip_for_category :: "string \<Rightarrow> string option" where
  "study_tip_for_category cat =
     (let c = lower cat
      in if c = ''data_structure''
         then Some (light_bulb @ '' **Study tip:** For data structures, practice implementing the core ''
                    @ ''operations (insert, delete, search) and analyse their time complexity.'')
         else if c = ''algorithm''
         then Some (light_bulb @ '' **Study tip:** For algorithms, make sure you understand both the ''
                    @ ''step-by-step procedure *and* the Big-O complexity. Trace small examples by hand.'')
         else None)"

text \<open>
  \<open>_pick_best_concept_from_results\<close>. \<open>sorted(keys, key=score, reverse=True)\<close> is the stable sort
  by descending score, that is \<^const>\<open>sort_key\<close> on the negated score.
\<close>

definition score_of :: "(string \<times> fuzzy_hit) list \<Rightarrow> string \<Rightarrow> rat" where
  "score_of fz k = (case map_of fz k of None \<Rightarrow> 0 | Some h \<Rightarrow> match_score h)"

definition pick_best_concept_from_results :: "DsaTutorEngine \<Rightarrow> composite \<Rightarrow> node option" where
  "pick_best_concept_from_results t results =
     (if (case exact results of None \<Rightarrow> False | Some r \<Rightarrow> truthy (snd r)) then exact results
      else if fuzzy results \<noteq> []
      then (case sort_key (\<lambda>k. - score_of (fuzzy results) k) (map fst (fuzzy results)) of
              [] \<Rightarrow> None
            | best_key # _ \<Rightarrow> map_of (kg t) best_key)
      else if keyword results \<noteq> []
      then (case map fst (keyword results) of
              [] \<Rightarrow> None
            | first_key # _ \<Rightarrow> map_of (kg t) first_key)
      else None)"

record tutor_result =
  query :: string
  matched_key :: "string option"
  match_source :: string
  concept :: "node option"
  answer_markdown :: string

text \<open>The loop that recovers the key: the first key of \<open>self.kg\<close> whose record is the chosen object.\<close>

fun find_matched_key :: "kgraph \<Rightarrow> node \<Rightarrow> string option" where
  "find_matched_key [] c = None"
| "find_matched_key ((key, data) # rest) c =
     (if is_same data c then Some key else find_matched_key rest c)"

definition explain_concept ::
  "(string \<Rightarrow> nat \<Rightarrow> string) \<Rightarrow> DsaTutorEngine \<Rightarrow> string \<Rightarrow> error + tutor_result" where
  "explain_concept fill t concept_name =
     (let q = strip concept_name
      in if q = []
         then Inr \<lparr>query = concept_name, matched_key = None, match_source = ''none'',
                   concept = None,
                   answer_markdown = ''Please provide a non-empty concept name.''\<rparr>
         else case comprehensive_search (engine t) q of
                Inl err \<Rightarrow> Inl err
              | Inr results \<Rightarrow>
                  (case pick_best_concept_from_results t results of
                     None \<Rightarrow>
                       Inr \<lparr>query = q, matched_key = None, match_source = ''none'',
                            concept = None,
                            answer_markdown = ''I couldn't find a clear match for **'' @ q
                              @ ''** in the knowledge graph.''\<rparr>
                   | Some c \<Rightarrow>
                       let mk = find_matched_key (kg t) c;
                           answer = build_concept_explanation fill (snd c);
                           answer = (case study_tip_for_category (get (category (snd c)) []) of
                                       None \<Rightarrow> answer
                                     | Some tip \<Rightarrow> answer @ [CHR 0x0A, CHR 0x0A] @ tip);
                           src = (if (case exact results of None \<Rightarrow> False | Some x \<Rightarrow> is_same x c)
                                  then ''exact''
                                  else if (case mk of None \<Rightarrow> False
                                           | Some k \<Rightarrow> k \<noteq> [] \<and> k \<in> set (map fst (fuzzy results)))
                                  then ''fuzzy''
                                  else ''keyword'')
                       in Inr \<lparr>query = q, matched_key = mk, match_source = src,
                               concept = Some c, answer_markdown = answer\<rparr>))"

text \<open>The loop of \<open>answer\<close> over the three prefixes: the concept name after the first that matches.\<close>

fun strip_prefix :: "string \<Rightarrow> string \<Rightarrow> string list \<Rightarrow> string option" where
  "strip_prefix query_clean lowered [] = None"
| "strip_prefix query_clean lowered (p # ps) =
     (if prefix p lowered then Some (strip (drop (length p) query_clean))
      else strip_prefix query_clean lowered ps)"

definition not_mapped_message :: string where
  "not_mapped_message =
     ''I couldn't map your question to a specific concept in the knowledge graph.''
     @ [CHR 0x0A, CHR 0x0A] @ ''Try asking something like:'' @ [CHR 0x0A]
     @ ''- `Explain stack`'' @ [CHR 0x0A]
     @ ''- `What is binary search?`'' @ [CHR 0x0A]
     @ ''- `Define adjacency list`'' @ [CHR 0x0A]"

definition answer ::
  "(string \<Rightarrow> nat \<Rightarrow> string) \<Rightarrow> DsaTutorEngine \<Rightarrow> string \<Rightarrow> error + tutor_result" where
  "answer fill t user_query =
     (let query_clean = strip user_query
      in if query_clean = []
         then Inr \<lparr>query = user_query, matched_key = None, match_source = ''none'',
                   concept = None,
                   answer_markdown = ''Please type a question or a concept name.''\<rparr>
         else case strip_prefix query_clean (lower query_clean)
                     [''explain '', ''what is '', ''define ''] of
                Some concept_name \<Rightarrow> explain_concept fill t concept_name
              | None \<Rightarrow>
                  (case comprehensive_search (engine t) query_clean of
                     Inl err \<Rightarrow> Inl err
                   | Inr results \<Rightarrow>
                       (case pick_best_concept_from_results t results of
                          None \<Rightarrow>
                            Inr \<lparr>query = query_clean, matched_key = None, match_source = ''none'',
                                 concept = None, answer_markdown = not_mapped_message\<rparr>
                        | Some c \<Rightarrow> explain_concept fill t (get (name (snd c)) []))))"

section \<open>Facts about the loaded store\<close>

lemma json_load_distinct:
  "json_load members a g = (g', a') \<Longrightarrow> distinct (map fst g) \<Longrightarrow> distinct (map fst g')"
  by (induction members a g rule: json_load.induct) (auto simp: distinct_update)

lemma init_distinct:
  assumes "KnowledgeGraphSearch_init fs file a = Inr (e, a')"
  shows "distinct (map fst (graph e))" and "concept_keys e = map fst (graph e)"
  using assms json_load_distinct [of _ a "[]"]
  by (auto simp: KnowledgeGraphSearch_init_def split: option.splits prod.splits)

section \<open>A small store\<close>

text \<open>Two records as \<open>graph_builder.py\<close> writes them, for the concrete instances below.\<close>

definition stack_concept :: concept where
  "stack_concept = \<lparr>name = Some ''Stack'', ctype = Some ''linear_structure'',
     category = Some ''data_structure'', basic_ops = Some [''push'', ''pop''],
     principle = Some ''LIFO'', description = Some ''A LIFO structure.'',
     relations = Some [''lifo_structure''], use_cases = Some [''undo_operations''],
     ident = Some ''dsa_stack''\<rparr>"

definition search_concept :: concept where
  "search_concept = \<lparr>name = Some ''Binary Search'', ctype = Some ''search_algorithm'',
     category = Some ''algorithm'', basic_ops = Some [''search''],
     principle = Some ''Halve the interval'', description = Some ''Searches a sorted array.'',
     relations = Some [''lookup_operation''], use_cases = Some [''general_dsa_application''],
     ident = Some ''dsa_binary_search''\<rparr>"

definition demo_file :: string where
  "demo_file = ''data/knowledge_graph.json''"

definition demo_fs :: filesystem where
  "demo_fs file = (if file = demo_file
     then Some [(''stack'', stack_concept), (''binary_search'', search_concept)] else None)"

definition demo_engine :: "nat \<Rightarrow> KnowledgeGraphSearch" where
  "demo_engine a = \<lparr>graph_file = demo_file,
     graph = [(''stack'', (a, stack_concept)), (''binary_search'', (Suc a, search_concept))],
     concept_keys = [''stack'', ''binary_search''],
     concept_names = [''Stack'', ''Binary Search'']\<rparr>"

definition demo_tutor :: DsaTutorEngine where
  "demo_tutor = \<lparr>tutor_graph_file = demo_file,
     kg = [(''stack'', (0, stack_concept)), (''binary_search'', (1, search_concept))],
     engine = demo_engine 2\<rparr>"

lemma demo_engine_init:
  "KnowledgeGraphSearch_init demo_fs demo_file a = Inr (demo_engine a, Suc (Suc a))"
  by (simp add: KnowledgeGraphSearch_init_def demo_fs_def demo_engine_def get_def
      stack_concept_def search_concept_def)

lemma demo_tutor_init:
  "DsaTutorEngine_init demo_fs demo_file 0 = Inr (demo_tutor, 4)"
  unfolding DsaTutorEngine_init_def demo_engine_init
  by (simp add: demo_fs_def demo_tutor_def numeral_2_eq_2 eval_nat_numeral)

text \<open>A store of three bare records, keyed \<open>ab\<close>, \<open>ba\<close> and \<open>bca\<close>.\<close>

definition bare_concept :: "string \<Rightarrow> concept" where
  "bare_concept nm = \<lparr>name = Some nm, ctype = None, category = None, basic_ops = None,
     principle = None, description = None, relations = None, use_cases = None, ident = None\<rparr>"

definition toy_fs :: filesystem where
  "toy_fs file = (if file = demo_file
     then Some [(''ab'', bare_concept ''Ab''), (''ba'', bare_concept ''Ba''),
                (''bca'', bare_concept ''Bca'')]
     else None)"

definition toy_engine :: KnowledgeGraphSearch where
  "toy_engine = \<lparr>graph_file = demo_file,
     graph = [(''ab'', (0, bare_concept ''Ab'')), (''ba'', (1, bare_concept ''Ba'')),
              (''bca'', (2, bare_concept ''Bca''))],
     concept_keys = [''ab'', ''ba'', ''bca''],
     concept_names = [''Ab'', ''Ba'', ''Bca'']\<rparr>"

lemma toy_engine_init: "KnowledgeGraphSearch_init toy_fs demo_file 0 = Inr (toy_engine, 3)"
  by (simp add: KnowledgeGraphSearch_init_def toy_fs_def toy_engine_def get_def bare_concept_def
      eval_nat_numeral)


text \<open>A store with a record that has no member at all, and a \<open>textwrap.fill\<close> for short text.\<close>

definition empty_concept :: concept where
  "empty_concept = \<lparr>name = None, ctype = None, category = None, basic_ops = None,
     principle = None, description = None, relations = None, use_cases = None, ident = None\<rparr>"

definition ghost_fs :: filesystem where
  "ghost_fs file = (if file = demo_file
     then Some [(''stack'', stack_concept), (''ghost'', empty_concept)] else None)"

definition ghost_tutor :: DsaTutorEngine where
  "ghost_tutor = \<lparr>tutor_graph_file = demo_file,
     kg = [(''stack'', (0, stack_concept)), (''ghost'', (1, empty_concept))],
     engine = \<lparr>graph_file = demo_file,
       graph = [(''stack'', (2, stack_concept)), (''ghost'', (3, empty_concept))],
       concept_keys = [''stack'', ''ghost''],
       concept_names = [''Stack'', ''ghost'']\<rparr>\<rparr>"

lemma ghost_tutor_init: "DsaTutorEngine_init ghost_fs demo_file 0 = Inr (ghost_tutor, 4)"
  by (simp add: DsaTutorEngine_init_def KnowledgeGraphSearch_init_def ghost_fs_def ghost_tutor_def
      get_def stack_concept_def empty_concept_def eval_nat_numeral)

definition fill_short :: "string \<Rightarrow> nat \<Rightarrow> string" where
  "fill_short s width = s"

text \<open>A store whose one record has a description longer than the snippet windows.\<close>

definition long_description :: string where
  "long_description = ''A linear structure in which the element added last is removed first; ''
     @ ''insertion and removal both take place at one end, the top.''"

definition long_fs :: filesystem where
  "long_fs file = (if file = demo_file
     then Some [(''stack'', (bare_concept ''Stack'')\<lparr>description := Some long_description\<rparr>)]
     else None)"

definition long_engine :: KnowledgeGraphSearch where
  "long_engine = \<lparr>graph_file = demo_file,
     graph = [(''stack'', (0, (bare_concept ''Stack'')\<lparr>description := Some long_description\<rparr>))],
     concept_keys = [''stack''], concept_names = [''Stack'']\<rparr>"

lemma long_engine_init: "KnowledgeGraphSearch_init long_fs demo_file 0 = Inr (long_engine, 1)"
  by (simp add: KnowledgeGraphSearch_init_def long_fs_def long_engine_def get_def bare_concept_def)

section \<open>Exact search\<close>

text \<open>
  C5. Over a loaded store, for every key \<open>k\<close> of the store and every text whose normalization
  is \<open>k\<close>, \<open>exact_search\<close> returns the record stored at \<open>k\<close>; and whatever \<open>exact_search\<close>
  returns is the record stored at the normalization of the text: there is no partial matching.
\<close>

theorem exact_search_normalized_key:
  assumes "KnowledgeGraphSearch_init fs file a = Inr (e, a')"
  shows "(\<forall>k r. (k, r) \<in> set (graph e) \<and> normalize_key text = k \<longrightarrow> exact_search e text = Some r)
    \<and> (\<forall>r. exact_search e text = Some r \<longrightarrow> (normalize_key text, r) \<in> set (graph e))"
  using init_distinct(1) [OF assms] by (auto simp: exact_search_def dest: map_of_SomeD)

lemma normalize_key_example: "normalize_key '' Binary - Search/'' = ''binary_search_''"
  by code_simp

lemma normalize_key_example2: "normalize_key '' Binary - Search'' = ''binary_search''"
  by code_simp

theorem exact_search_normalized_key_witness:
  "KnowledgeGraphSearch_init demo_fs demo_file 0 = Inr (demo_engine 0, 2)
   \<and> normalize_key '' Binary - Search'' = ''binary_search''
   \<and> exact_search (demo_engine 0) '' Binary - Search'' = Some (1, search_concept)
   \<and> exact_search (demo_engine 0) ''Binary'' = None"
proof -
  have i: "KnowledgeGraphSearch_init demo_fs demo_file 0 = Inr (demo_engine 0, 2)"
    by (simp add: demo_engine_init numeral_2_eq_2)
  have "normalize_key ''Binary'' = ''binary''" by code_simp
  then have "\<forall>r. (normalize_key ''Binary'', r) \<notin> set (graph (demo_engine 0))"
    by (simp add: demo_engine_def)
  with exact_search_normalized_key [OF i, of "''Binary''"]
  have "exact_search (demo_engine 0) ''Binary'' = None"
    by (cases "exact_search (demo_engine 0) ''Binary''") auto
  with exact_search_normalized_key [OF i, of "'' Binary - Search''"] i
  show ?thesis
    by (simp add: normalize_key_example2 demo_engine_def)
qed

section \<open>Fuzzy search\<close>

lemma nlargest_length: "length (nlargest n xs) \<le> n"
  by (simp add: nlargest_def)

lemma nlargest_subset: "set (nlargest n xs) \<subseteq> set xs"
  using set_take_subset [of n "rev (sort xs)"] by (simp add: nlargest_def)

lemma nlargest_distinct: "distinct xs \<Longrightarrow> distinct (nlargest n xs)"
  by (simp add: nlargest_def)

lemma nlargest_descending: "sorted_wrt (\<lambda>x y. y \<le> x) (nlargest n xs)"
proof -
  have "sorted_wrt (\<lambda>x y. y \<le> x) (rev (sort xs))"
    by (simp add: sorted_wrt_rev)
  then show ?thesis
    unfolding nlargest_def by (rule sorted_wrt_take)
qed

text \<open>What \<open>get_close_matches\<close> returns, for arguments it accepts.\<close>

lemma get_close_matches_props:
  assumes "0 < n" and "0 \<le> cutoff" and "cutoff \<le> 1"
  shows "\<exists>close. get_close_matches word possibilities n cutoff = Inr close
     \<and> int (length close) \<le> n
     \<and> set close \<subseteq> set possibilities
     \<and> (distinct possibilities \<longrightarrow> distinct close)
     \<and> (\<forall>k \<in> set close. cutoff \<le> ratio k word)
     \<and> sorted_wrt (\<lambda>k k'. (ratio k' word, k') \<le> (ratio k word, k)) close"
proof -
  define good where "good = filter (\<lambda>x. real_quick_ratio x word \<ge> cutoff
        \<and> quick_ratio x word \<ge> cutoff \<and> ratio x word \<ge> cutoff) possibilities"
  define result where "result = map (\<lambda>x. (ratio x word, x)) good"
  define top where "top = nlargest (nat n) result"
  have eq: "get_close_matches word possibilities n cutoff = Inr (map snd top)"
    using assms by (simp add: get_close_matches_def Let_def top_def result_def good_def)
  have sub: "set top \<subseteq> set result"
    unfolding top_def by (rule nlargest_subset)
  have shape: "p = (ratio (snd p) word, snd p) \<and> snd p \<in> set good" if "p \<in> set top" for p
    using that sub by (auto simp: result_def)
  have len: "int (length (map snd top)) \<le> n"
    using nlargest_length [of "nat n" result] assms(1) by (simp add: top_def)
  have mem: "set (map snd top) \<subseteq> set possibilities"
    using shape by (auto simp: good_def)
  have cut: "\<forall>k \<in> set (map snd top). cutoff \<le> ratio k word"
    using shape by (auto simp: good_def)
  have dist: "distinct (map snd top)" if "distinct possibilities"
  proof -
    from that have "distinct good" by (simp add: good_def)
    then have "distinct (map snd result)"
      by (simp add: result_def comp_def)
    then have d: "distinct result" and inj: "inj_on snd (set result)"
      by (simp_all add: distinct_map)
    from d have "distinct top" unfolding top_def by (rule nlargest_distinct)
    moreover from inj sub have "inj_on snd (set top)" by (rule inj_on_subset)
    ultimately show ?thesis by (simp add: distinct_map)
  qed
  have "sorted_wrt (\<lambda>p p'. p' \<le> p) top"
    unfolding top_def by (rule nlargest_descending)
  then have "sorted_wrt (\<lambda>p p'. (ratio (snd p') word, snd p') \<le> (ratio (snd p) word, snd p)) top"
    by (rule sorted_wrt_mono_rel [rotated]) (use shape in metis)
  then have ord: "sorted_wrt (\<lambda>k k'. (ratio k' word, k') \<le> (ratio k word, k)) (map snd top)"
    by (simp add: sorted_wrt_map)
  from eq len mem cut dist ord show ?thesis by blast
qed

lemma update_fresh: "k \<notin> fst ` set al \<Longrightarrow> AList.update k v al = al @ [(k, v)]"
  by (induction al) auto

text \<open>The hit that \<open>fuzzy_search\<close> stores for a key of the graph.\<close>

definition fuzzy_hit_of :: "kgraph \<Rightarrow> string \<Rightarrow> string \<Rightarrow> fuzzy_hit" where
  "fuzzy_hit_of g normq k =
     (case map_of g k of
        None \<Rightarrow> \<lparr>f_name = k, f_type = ''unknown'', match_score = similarity normq k\<rparr>
      | Some d \<Rightarrow> \<lparr>f_name = get (name (snd d)) k, f_type = get (ctype (snd d)) ''unknown'',
                    match_score = similarity normq k\<rparr>)"

lemma fuzzy_loop_distinct:
  "distinct close \<Longrightarrow> set close \<subseteq> fst ` set g \<Longrightarrow> set close \<inter> fst ` set res = {}
   \<Longrightarrow> fuzzy_loop g normq close res = Inr (res @ map (\<lambda>k. (k, fuzzy_hit_of g normq k)) close)"
proof (induction close arbitrary: res)
  case Nil
  then show ?case by simp
next
  case (Cons k close)
  from Cons.prems(2) obtain d where d: "map_of g k = Some d"
    by (cases "map_of g k") (auto simp: map_of_eq_None_iff)
  let ?h = "\<lparr>f_name = get (name (snd d)) k, f_type = get (ctype (snd d)) ''unknown'',
              match_score = similarity normq k\<rparr>"
  from Cons.prems(3) have fresh: "AList.update k ?h res = res @ [(k, ?h)]"
    by (intro update_fresh) auto
  have "set close \<inter> fst ` set (res @ [(k, ?h)]) = {}"
    using Cons.prems(1,3) by auto
  with Cons.IH [of "res @ [(k, ?h)]"] Cons.prems(1,2)
  have "fuzzy_loop g normq close (res @ [(k, ?h)])
      = Inr ((res @ [(k, ?h)]) @ map (\<lambda>k. (k, fuzzy_hit_of g normq k)) close)"
    by simp
  then show ?case
    by (simp add: d fresh fuzzy_hit_of_def)
qed

lemma fuzzy_search_ValueError:
  "limit \<le> 0 \<or> cutoff < 0 \<or> 1 < cutoff \<Longrightarrow> fuzzy_search e q limit cutoff = Inl ValueError"
  by (auto simp: fuzzy_search_def get_close_matches_def Let_def not_le)


lemma fuzzy_search_loaded:
  assumes "KnowledgeGraphSearch_init fs file a = Inr (e, a')"
    and "0 < limit" and "0 \<le> cutoff" and "cutoff \<le> 1"
  shows "\<exists>res. fuzzy_search e q limit cutoff = Inr res
     \<and> int (length res) \<le> limit
     \<and> distinct (map fst res)
     \<and> set (map fst res) \<subseteq> set (concept_keys e)
     \<and> (\<forall>k \<in> set (map fst res). cutoff \<le> ratio k (normalize_key q))
     \<and> sorted_wrt (\<lambda>k k'. (ratio k' (normalize_key q), k') \<le> (ratio k (normalize_key q), k))
          (map fst res)"
proof -
  let ?nq = "normalize_key q"
  from init_distinct [OF assms(1)]
  have keys: "distinct (concept_keys e)" "set (concept_keys e) = fst ` set (graph e)"
    by simp_all
  from get_close_matches_props [OF assms(2-4), of ?nq "concept_keys e"] keys(1)
  obtain close where close: "get_close_matches ?nq (concept_keys e) limit cutoff = Inr close"
    "int (length close) \<le> limit" "set close \<subseteq> set (concept_keys e)" "distinct close"
    "\<forall>k \<in> set close. cutoff \<le> ratio k ?nq"
    "sorted_wrt (\<lambda>k k'. (ratio k' ?nq, k') \<le> (ratio k ?nq, k)) close"
    by blast
  let ?res = "map (\<lambda>k. (k, fuzzy_hit_of (graph e) ?nq k)) close"
  have "fuzzy_loop (graph e) ?nq close [] = Inr ([] @ ?res)"
    using close(3,4) keys(2) by (intro fuzzy_loop_distinct) auto
  then have "fuzzy_search e q limit cutoff = Inr ?res"
    by (simp add: fuzzy_search_def close(1))
  moreover have "map fst ?res = close"
    by (simp add: comp_def)
  ultimately show ?thesis
    using close(2-6) by (intro exI [of _ ?res]) simp
qed


text \<open>
  C1, as stated, fails. On the store keyed \<open>ab\<close>, \<open>ba\<close>, \<open>bca\<close> the query \<open>aba\<close> with the
  default limit 5 and cutoff 0.6 returns \<open>bca\<close> with the reported \<open>match_score\<close> 1/3, below
  the cutoff; and \<open>ba\<close> comes before \<open>ab\<close> at equal score, against the store's order.
\<close>

theorem fuzzy_search_score_counterexample:
  "fuzzy_search toy_engine ''aba'' 5 (3 / 5) =
     Inr [(''ba'', \<lparr>f_name = ''Ba'', f_type = ''unknown'', match_score = 4 / 5\<rparr>),
          (''ab'', \<lparr>f_name = ''Ab'', f_type = ''unknown'', match_score = 4 / 5\<rparr>),
          (''bca'', \<lparr>f_name = ''Bca'', f_type = ''unknown'', match_score = 1 / 3\<rparr>)]
   \<and> (1 / 3 :: rat) < 3 / 5
   \<and> map fst (graph toy_engine) = [''ab'', ''ba'', ''bca'']"
  by code_simp

text \<open>
  C1, amended. Over a loaded store, for every query, every limit of at least 1 and every cutoff
  in [0, 1], \<open>fuzzy_search\<close> returns at most \<open>limit\<close> entries, for distinct keys of the store;
  the score by which \<open>get_close_matches\<close> selects a key (the ratio with the key as first
  sequence and the normalized query as second) is at least the cutoff for every entry, and the
  entries stand in descending order of that score, equal scores in descending order of the key.
\<close>

theorem fuzzy_search_selection:
  assumes "KnowledgeGraphSearch_init fs file a = Inr (e, a')"
    and "0 < limit" and "0 \<le> cutoff" and "cutoff \<le> 1"
  shows "\<exists>res. fuzzy_search e q limit cutoff = Inr res
     \<and> int (length res) \<le> limit
     \<and> distinct (map fst res)
     \<and> set (map fst res) \<subseteq> set (concept_keys e)
     \<and> (\<forall>k \<in> set (map fst res). cutoff \<le> ratio k (normalize_key q))
     \<and> sorted_wrt (\<lambda>k k'. (ratio k' (normalize_key q), k') \<le> (ratio k (normalize_key q), k))
          (map fst res)"
  using assms by (rule fuzzy_search_loaded)

theorem fuzzy_search_selection_witness:
  "fuzzy_search (demo_engine 0) ''binary serch'' 5 (3 / 5) =
     Inr [(''binary_search'', \<lparr>f_name = ''Binary Search'', f_type = ''search_algorithm'',
                                 match_score = 24 / 25\<rparr>)]
   \<and> (3 / 5 :: rat) \<le> ratio ''binary_search'' (normalize_key ''binary serch'')"
proof -
  have i: "KnowledgeGraphSearch_init demo_fs demo_file 0 = Inr (demo_engine 0, Suc (Suc 0))"
    by (rule demo_engine_init)
  have v: "fuzzy_search (demo_engine 0) ''binary serch'' 5 (3 / 5) =
     Inr [(''binary_search'', \<lparr>f_name = ''Binary Search'', f_type = ''search_algorithm'',
                                 match_score = 24 / 25\<rparr>)]"
    by code_simp
  from fuzzy_search_selection [OF i, of 5 "3 / 5" "''binary serch''"] v
  show ?thesis by simp
qed

section \<open>The composite search\<close>

lemma comprehensive_search_total:
  assumes "KnowledgeGraphSearch_init fs file a = Inr (e, a')"
  shows "\<exists>f. comprehensive_search e q =
           Inr \<lparr>exact = exact_search e q, fuzzy = f, related = relation_search e q,
                keyword = keyword_search e q\<rparr>
         \<and> fuzzy_search e q 5 (3 / 5) = Inr f"
proof -
  from fuzzy_search_loaded [OF assms, of 5 "3 / 5" q]
  obtain f where "fuzzy_search e q 5 (3 / 5) = Inr f" by auto
  then show ?thesis by (simp add: comprehensive_search_def)
qed

section \<open>The tutor: blank input and prefixes\<close>








section \<open>The tutor: prefixes\<close>

lemma strip_prefix_three:
  "strip_prefix qc l [''explain '', ''what is '', ''define ''] =
     (if prefix ''explain '' l then Some (strip (drop (length ''explain '') qc))
      else if prefix ''what is '' l then Some (strip (drop (length ''what is '') qc))
      else if prefix ''define '' l then Some (strip (drop (length ''define '') qc))
      else None)"
  by simp

text \<open>
  C7. When the trimmed query starts, without regard to case, with \<open>explain\<close>, \<open>what is\<close> or
  \<open>define\<close> followed by a space, \<open>answer\<close> returns exactly what \<open>explain_concept\<close> returns on the
  trimmed remainder. When it starts with none of them (and is not blank), the composite search
  runs on the trimmed query text as it is.
\<close>

theorem answer_prefix_explain_concept:
  "(\<forall>p \<in> {''explain '', ''what is '', ''define ''}.
      prefix p (lower (strip user_query)) \<longrightarrow>
      answer fill t user_query =
        explain_concept fill t (strip (drop (length p) (strip user_query))))
   \<and> (strip user_query \<noteq> [] \<and> (\<forall>p \<in> {''explain '', ''what is '', ''define ''}.
         \<not> prefix p (lower (strip user_query))) \<longrightarrow>
      answer fill t user_query =
        (case comprehensive_search (engine t) (strip user_query) of
           Inl err \<Rightarrow> Inl err
         | Inr results \<Rightarrow>
             (case pick_best_concept_from_results t results of
                None \<Rightarrow>
                  Inr \<lparr>query = strip user_query, matched_key = None, match_source = ''none'',
                       concept = None, answer_markdown = not_mapped_message\<rparr>
              | Some c \<Rightarrow> explain_concept fill t (get (name (snd c)) []))))"
proof -
  let ?qc = "strip user_query" and ?l = "lower (strip user_query)"
  have ne: "?qc \<noteq> []" if "prefix p ?l" "p \<noteq> []" for p
    using that by (auto simp: lower_def)
  have ex: "\<not> (prefix ''explain '' ?l \<and> prefix ''what is '' ?l)"
    "\<not> (prefix ''explain '' ?l \<and> prefix ''define '' ?l)"
    "\<not> (prefix ''what is '' ?l \<and> prefix ''define '' ?l)"
    by (auto simp: prefix_def)
  show ?thesis
    using ne [of "''explain ''"] ne [of "''what is ''"] ne [of "''define ''"] ex
    by (auto simp: answer_def Let_def strip_prefix_three simp del: strip_prefix.simps)
qed


lemma demo_lifo_search:
  "comprehensive_search (engine demo_tutor) ''lifo_structure'' =
     Inr \<lparr>exact = None, fuzzy = [],
          related = [(''stack'', \<lparr>r_name = ''Stack'', r_category = ''data_structure''\<rparr>)],
          keyword = []\<rparr>"
  by code_simp

lemma demo_stack_search:
  "comprehensive_search (engine demo_tutor) ''stack'' =
     Inr \<lparr>exact = Some (2, stack_concept),
          fuzzy = [(''stack'', \<lparr>f_name = ''Stack'', f_type = ''linear_structure'', match_score = 1\<rparr>)],
          related = [],
          keyword = [(''stack'', \<lparr>k_name = ''Stack'', k_snippet = ''A LIFO structure....''\<rparr>)]\<rparr>"
  by code_simp

lemma ghost_search:
  "comprehensive_search (engine ghost_tutor) ''ghost'' =
     Inr \<lparr>exact = Some (3, empty_concept),
          fuzzy = [(''ghost'', \<lparr>f_name = ''ghost'', f_type = ''unknown'', match_score = 1\<rparr>)],
          related = [], keyword = []\<rparr>"
  by code_simp

theorem answer_prefix_explain_concept_witness:
  "answer fill_short demo_tutor ''  What is Binary Search '' =
     explain_concept fill_short demo_tutor ''Binary Search''
   \<and> answer fill_short demo_tutor ''lifo_structure'' =
       Inr \<lparr>query = ''lifo_structure'', matched_key = None, match_source = ''none'',
            concept = None, answer_markdown = not_mapped_message\<rparr>"
proof -
  have 1: "prefix ''what is '' (lower (strip ''  What is Binary Search ''))" by code_simp
  have 2: "strip (drop (length ''what is '') (strip ''  What is Binary Search '')) = ''Binary Search''"
    by code_simp
  have 3: "strip ''lifo_structure'' = ''lifo_structure''" by code_simp
  have 4: "\<forall>p \<in> {''explain '', ''what is '', ''define ''}. \<not> prefix p (lower ''lifo_structure'')"
    by code_simp
  have 5: "pick_best_concept_from_results demo_tutor \<lparr>exact = None, fuzzy = [],
          related = [(''stack'', \<lparr>r_name = ''Stack'', r_category = ''data_structure''\<rparr>)],
          keyword = []\<rparr> = None"
    by (simp add: pick_best_concept_from_results_def)
  from answer_prefix_explain_concept [of "''  What is Binary Search ''" fill_short demo_tutor] 1 2
  have a: "answer fill_short demo_tutor ''  What is Binary Search '' =
     explain_concept fill_short demo_tutor ''Binary Search''"
    by auto
  from answer_prefix_explain_concept [of "''lifo_structure''" fill_short demo_tutor] 3 4
    demo_lifo_search 5
  have "answer fill_short demo_tutor ''lifo_structure'' =
       Inr \<lparr>query = ''lifo_structure'', matched_key = None, match_source = ''none'',
            concept = None, answer_markdown = not_mapped_message\<rparr>"
    by simp
  with a show ?thesis by simp
qed

section \<open>The tutor: selection\<close>

lemma strip_idem: "strip (strip s) = strip s"
proof -
  define u where "u = dropWhile isspace s"
  define v where "v = dropWhile isspace (rev u)"
  have s: "strip s = rev v" by (simp add: strip_def u_def v_def)
  have vv: "dropWhile isspace v = v" by (simp add: v_def)
  have "dropWhile isspace (rev v) = rev v"
  proof (cases "v = []")
    case True
    then show ?thesis by simp
  next
    case False
    have "rev u = takeWhile isspace (rev u) @ v" by (simp add: v_def)
    with False have "last (rev u) = last v"
      by (metis last_appendR)
    moreover from False have une: "u \<noteq> []" by (auto simp: v_def)
    ultimately have "last v = hd u" by (simp add: last_rev)
    moreover from une have "\<not> isspace (hd u)"
      unfolding u_def by (rule hd_dropWhile)
    ultimately have "\<not> isspace (hd (rev v))"
      using False by (simp add: hd_rev)
    with False show ?thesis
      by (cases "rev v") auto
  qed
  then have "strip (rev v) = rev v"
    by (simp add: strip_def vv)
  with s show ?thesis by simp
qed

lemma normalize_key_strip: "normalize_key (strip q) = normalize_key q"
  by (simp add: normalize_key_def strip_idem)

lemma set_update_subset: "set (AList.update k v al) \<subseteq> insert (k, v) (set al)"
  by (induction al) auto

lemma json_load_addresses:
  "json_load members a g = (g', a') \<Longrightarrow> \<forall>n \<in> snd ` set g. lo \<le> fst n \<and> fst n < a \<Longrightarrow> lo \<le> a
   \<Longrightarrow> (\<forall>n \<in> snd ` set g'. lo \<le> fst n \<and> fst n < a') \<and> a \<le> a'"
proof (induction members a g rule: json_load.induct)
  case (1 a g)
  then show ?case by simp
next
  case (2 k c members a g)
  have "\<forall>n \<in> snd ` set (AList.update k (a, c) g). lo \<le> fst n \<and> fst n < Suc a"
  proof
    fix n assume "n \<in> snd ` set (AList.update k (a, c) g)"
    with set_update_subset [of k "(a, c)" g] have "n = (a, c) \<or> n \<in> snd ` set g"
      by auto
    with 2(3,4) show "lo \<le> fst n \<and> fst n < Suc a"
      by (auto simp: less_Suc_eq)
  qed
  from 2(1) [OF _ this] 2(2,4) show ?case by simp
qed

text \<open>The tutor's own copy of the graph and the engine's copy share no object.\<close>

lemma tutor_init_copies:
  assumes "DsaTutorEngine_init fs file a = Inr (t, a')"
  shows "\<exists>a1. KnowledgeGraphSearch_init fs file a1 = Inr (engine t, a')
     \<and> (\<forall>n \<in> snd ` set (kg t). fst n < a1)
     \<and> (\<forall>n \<in> snd ` set (graph (engine t)). a1 \<le> fst n)"
proof -
  from assms obtain members g a1 e where
    m: "fs file = Some members" and l1: "json_load members a [] = (g, a1)"
    and e: "KnowledgeGraphSearch_init fs file a1 = Inr (e, a')"
    and t: "t = \<lparr>tutor_graph_file = file, kg = g, engine = e\<rparr>"
    by (auto simp: DsaTutorEngine_init_def split: option.splits prod.splits sum.splits)
  from e m obtain g2 where l2: "json_load members a1 [] = (g2, a')" and g2: "graph e = g2"
    by (auto simp: KnowledgeGraphSearch_init_def split: prod.splits)
  from json_load_addresses [OF l1, of a] have "\<forall>n \<in> snd ` set g. fst n < a1" by simp
  moreover from json_load_addresses [OF l2, of a1] have "\<forall>n \<in> snd ` set g2. a1 \<le> fst n" by simp
  ultimately show ?thesis using e t g2 by auto
qed

lemma find_matched_key_None:
  "\<forall>d \<in> snd ` set g. \<not> is_same d c \<Longrightarrow> find_matched_key g c = None"
  by (induction g) auto

text \<open>
  C3. When the composite result of a query has no exact record, an empty fuzzy mapping and an
  empty keyword mapping, the selector returns no concept, whatever the relation strategy
  matched, and \<open>explain_concept\<close> reports source \<open>none\<close>, no key, no concept and its not-found
  message for the query.
\<close>

theorem relation_only_not_found:
  assumes "strip q \<noteq> []"
    and "comprehensive_search (engine t) (strip q) = Inr results"
    and "exact results = None" and "fuzzy results = []" and "keyword results = []"
  shows "pick_best_concept_from_results t results = None
     \<and> explain_concept fill t q =
           Inr \<lparr>query = strip q, matched_key = None, match_source = ''none'', concept = None,
                answer_markdown = ''I couldn't find a clear match for **'' @ strip q
                  @ ''** in the knowledge graph.''\<rparr>"
  using assms by (simp add: pick_best_concept_from_results_def explain_concept_def Let_def)

theorem relation_only_not_found_witness:
  "related \<lparr>exact = None, fuzzy = [],
          related = [(''stack'', \<lparr>r_name = ''Stack'', r_category = ''data_structure''\<rparr>)],
          keyword = []\<rparr> \<noteq> []
   \<and> explain_concept fill_short demo_tutor ''lifo_structure'' =
           Inr \<lparr>query = ''lifo_structure'', matched_key = None, match_source = ''none'',
                concept = None,
                answer_markdown = ''I couldn't find a clear match for **lifo_structure** in the knowledge graph.''\<rparr>"
proof -
  have s: "strip ''lifo_structure'' = ''lifo_structure''" by code_simp
  from relation_only_not_found [of "''lifo_structure''" demo_tutor _ fill_short]
    demo_lifo_search s
  show ?thesis by simp
qed

text \<open>
  C2, as stated, fails. In the store with the memberless record under \<open>ghost\<close>, the query
  \<open>ghost\<close> gives a composite result whose exact field holds that record and whose fuzzy mapping
  is not empty; the record is false as a Python value, so the selector passes on to the fuzzy
  mapping and returns the tutor's own object for the best key, not the object in the exact field.
\<close>

theorem empty_exact_record_counterexample:
  "comprehensive_search (engine ghost_tutor) ''ghost'' =
     Inr \<lparr>exact = Some (3, empty_concept),
          fuzzy = [(''ghost'', \<lparr>f_name = ''ghost'', f_type = ''unknown'', match_score = 1\<rparr>)],
          related = [], keyword = []\<rparr>
   \<and> pick_best_concept_from_results ghost_tutor
        \<lparr>exact = Some (3, empty_concept),
         fuzzy = [(''ghost'', \<lparr>f_name = ''ghost'', f_type = ''unknown'', match_score = 1\<rparr>)],
         related = [], keyword = []\<rparr> = Some (1, empty_concept)
   \<and> \<not> is_same (1, empty_concept) (3, empty_concept)"
  by (simp add: ghost_search)
    (simp add: pick_best_concept_from_results_def truthy_def empty_concept_def ghost_tutor_def
      score_of_def is_same_def)


text \<open>
  C2, amended. For every composite result whose exact field holds a record with at least one
  member, the selector returns the exact record, whatever the fuzzy, keyword and relation
  results are; and when that composite is the result of the query, \<open>explain_concept\<close> reports
  the exact record with source \<open>exact\<close>.
\<close>

theorem exact_record_selected:
  assumes "exact results = Some r" and "truthy (snd r)"
  shows "pick_best_concept_from_results t results = Some r
     \<and> (strip q \<noteq> [] \<and> comprehensive_search (engine t) (strip q) = Inr results \<longrightarrow>
          (\<exists>mk text. explain_concept fill t q =
             Inr \<lparr>query = strip q, matched_key = mk, match_source = ''exact'', concept = Some r,
                  answer_markdown = text\<rparr>))"
  using assms
  by (simp add: pick_best_concept_from_results_def explain_concept_def Let_def is_same_def)

theorem exact_record_selected_witness:
  "pick_best_concept_from_results demo_tutor
     \<lparr>exact = Some (2, stack_concept),
      fuzzy = [(''stack'', \<lparr>f_name = ''Stack'', f_type = ''linear_structure'', match_score = 1\<rparr>)],
      related = [],
      keyword = [(''stack'', \<lparr>k_name = ''Stack'', k_snippet = ''A LIFO structure....''\<rparr>)]\<rparr>
     = Some (2, stack_concept)
   \<and> (\<exists>mk text. explain_concept fill_short demo_tutor ''stack'' =
         Inr \<lparr>query = ''stack'', matched_key = mk, match_source = ''exact'',
              concept = Some (2, stack_concept), answer_markdown = text\<rparr>)"
proof -
  let ?c = "\<lparr>exact = Some (2, stack_concept),
      fuzzy = [(''stack'', \<lparr>f_name = ''Stack'', f_type = ''linear_structure'', match_score = 1\<rparr>)],
      related = [],
      keyword = [(''stack'', \<lparr>k_name = ''Stack'', k_snippet = ''A LIFO structure....''\<rparr>)]\<rparr>"
  have s: "strip ''stack'' = ''stack''" by code_simp
  have x: "exact ?c = Some (2, stack_concept)" by simp
  have t: "truthy (snd (2 :: nat, stack_concept))" by (simp add: truthy_def stack_concept_def)
  from exact_record_selected [OF x t, of demo_tutor "''stack''" fill_short]
    demo_stack_search s
  show ?thesis by simp
qed

text \<open>
  C10, as stated, fails. On the query \<open>ghost\<close> the exact strategy finds the memberless record,
  and \<open>explain_concept\<close> reports source \<open>fuzzy\<close> with the matched key \<open>ghost\<close>.
\<close>

theorem exact_hit_empty_record_counterexample:
  "exact_search (engine ghost_tutor) ''ghost'' = Some (3, empty_concept)
   \<and> explain_concept fill_short ghost_tutor ''ghost'' =
        Inr \<lparr>query = ''ghost'', matched_key = Some ''ghost'', match_source = ''fuzzy'',
             concept = Some (1, empty_concept),
             answer_markdown = ''I could not find any information for this concept.''\<rparr>"
  by code_simp


text \<open>
  C10, amended. A tutor built by its constructor holds two separately loaded copies of the
  graph. For every query that is not blank and on which the exact strategy finds a record with
  at least one member, \<open>explain_concept\<close> reports source \<open>exact\<close> and that record, and the
  matched key is \<open>None\<close>: the key is sought by object identity in the tutor's own copy, which
  never holds an object of the engine's copy.
\<close>

theorem exact_hit_has_no_matched_key:
  assumes "DsaTutorEngine_init fs file a = Inr (t, a')"
    and "strip q \<noteq> []"
    and "exact_search (engine t) q = Some r" and "truthy (snd r)"
  shows "\<exists>text. explain_concept fill t q =
           Inr \<lparr>query = strip q, matched_key = None, match_source = ''exact'', concept = Some r,
                answer_markdown = text\<rparr>"
proof -
  from tutor_init_copies [OF assms(1)] obtain a1 where
    e: "KnowledgeGraphSearch_init fs file a1 = Inr (engine t, a')"
    and lo: "\<forall>n \<in> snd ` set (kg t). fst n < a1"
    and hi: "\<forall>n \<in> snd ` set (graph (engine t)). a1 \<le> fst n"
    by blast
  from assms(3) have ex: "exact_search (engine t) (strip q) = Some r"
    by (simp add: exact_search_def normalize_key_strip)
  from comprehensive_search_total [OF e, of "strip q"] ex obtain results where
    r: "comprehensive_search (engine t) (strip q) = Inr results" "exact results = Some r"
    by auto
  from assms(3) have "r \<in> snd ` set (graph (engine t))"
    by (auto simp: exact_search_def dest!: map_of_SomeD intro: rev_image_eqI)
  with hi lo have "\<forall>d \<in> snd ` set (kg t). \<not> is_same d r"
    by (fastforce simp: is_same_def)
  then have mk: "find_matched_key (kg t) r = None"
    by (rule find_matched_key_None)
  have "pick_best_concept_from_results t results = Some r"
    using r(2) assms(4) by (simp add: pick_best_concept_from_results_def)
  with r mk assms(2) show ?thesis
    by (simp add: explain_concept_def Let_def is_same_def)
qed

theorem exact_hit_has_no_matched_key_witness:
  "DsaTutorEngine_init demo_fs demo_file 0 = Inr (demo_tutor, 4)
   \<and> exact_search (engine demo_tutor) ''stack'' = Some (2, stack_concept)
   \<and> (\<exists>text. explain_concept fill_short demo_tutor ''stack'' =
         Inr \<lparr>query = ''stack'', matched_key = None, match_source = ''exact'',
              concept = Some (2, stack_concept), answer_markdown = text\<rparr>)"
proof -
  have s: "strip ''stack'' = ''stack''" by code_simp
  have x: "exact_search (engine demo_tutor) ''stack'' = Some (2, stack_concept)" by code_simp
  have t: "truthy (snd (2 :: nat, stack_concept))" by (simp add: truthy_def stack_concept_def)
  from exact_hit_has_no_matched_key [OF demo_tutor_init _ x t, of fill_short] s x demo_tutor_init
  show ?thesis by simp
qed

section \<open>Keyword and relation search\<close>

lemma fold_update_filter:
  "distinct (map fst kvs) \<Longrightarrow> fst ` set res \<inter> fst ` set kvs = {} \<Longrightarrow>
   fold (\<lambda>(k, v) res. if P k v then AList.update k (f k v) res else res) kvs res
     = res @ map (\<lambda>(k, v). (k, f k v)) (filter (\<lambda>(k, v). P k v) kvs)"
proof (induction kvs arbitrary: res)
  case Nil
  then show ?case by simp
next
  case (Cons kv kvs)
  obtain k v where kv: "kv = (k, v)" by (cases kv)
  from Cons.prems kv have fresh: "k \<notin> fst ` set res" by auto
  show ?case
  proof (cases "P k v")
    case True
    have "fst ` set (res @ [(k, f k v)]) \<inter> fst ` set kvs = {}"
      using Cons.prems kv by auto
    with Cons.IH [of "res @ [(k, f k v)]"] Cons.prems(1) True kv fresh show ?thesis
      by (simp add: update_fresh)
  next
    case False
    have "fst ` set res \<inter> fst ` set kvs = {}"
      using Cons.prems kv by auto
    with Cons.IH [of res] Cons.prems(1) False kv show ?thesis
      by simp
  qed
qed

lemma keyword_search_loaded:
  assumes "KnowledgeGraphSearch_init fs file a = Inr (e, a')"
  shows "keyword_search e q =
     map (\<lambda>(k, v). (k, \<lparr>k_name = get (name (snd v)) [],
                           k_snippet = snippet (get (description (snd v)) []) q 60\<rparr>))
       (filter (\<lambda>(k, v). sublist (lower q)
                  (lower (get (name (snd v)) [] @ get (description (snd v)) []))) (graph e))"
  using fold_update_filter [OF init_distinct(1) [OF assms], of "[]"
      "\<lambda>k v. sublist (lower q) (lower (get (name (snd v)) [] @ get (description (snd v)) []))"
      "\<lambda>k v. \<lparr>k_name = get (name (snd v)) [],
                k_snippet = snippet (get (description (snd v)) []) q 60\<rparr>"]
  by (simp add: keyword_search_def Let_def)

lemma relation_search_loaded:
  assumes "KnowledgeGraphSearch_init fs file a = Inr (e, a')"
  shows "relation_search e rel =
     map (\<lambda>(k, v). (k, \<lparr>r_name = get (name (snd v)) k,
                           r_category = get (category (snd v)) ''unknown''\<rparr>))
       (filter (\<lambda>(k, v). lower rel \<in> set (map lower (get (relations (snd v)) []))) (graph e))"
  using fold_update_filter [OF init_distinct(1) [OF assms], of "[]"
      "\<lambda>k v. lower rel \<in> set (map lower (get (relations (snd v)) []))"
      "\<lambda>k v. \<lparr>r_name = get (name (snd v)) k,
                r_category = get (category (snd v)) ''unknown''\<rparr>"]
  by (simp add: relation_search_def Let_def)

text \<open>On code points below 256 lowercasing keeps the length, so an index into the lowered
  text is an index into the text; \<open>snippet\<close> relies on it.\<close>

lemma length_lower: "length (lower s) = length s"
  by (simp add: lower_def)

lemma find_from_not_found: "find_from i sub s = - 1 \<longleftrightarrow> \<not> sublist sub s"
  by (induction s arbitrary: i) (auto simp: sublist_Cons_right)

lemma find_from_found:
  "sublist sub s \<Longrightarrow> \<exists>j. find_from i sub s = int (i + j) \<and> prefix sub (drop j s) \<and> j \<le> length s"
proof (induction s arbitrary: i)
  case Nil
  then show ?case by simp
next
  case (Cons c cs)
  show ?case
  proof (cases "prefix sub (c # cs)")
    case True
    then show ?thesis by (intro exI [of _ 0]) simp
  next
    case False
    with Cons.prems have "sublist sub cs" by (simp add: sublist_Cons_right)
    from Cons.IH [OF this, of "Suc i"] obtain j where
      "find_from (Suc i) sub cs = int (Suc i + j)" "prefix sub (drop j cs)" "j \<le> length cs"
      by blast
    with False show ?thesis by (intro exI [of _ "Suc j"]) simp
  qed
qed

lemma sublist_slice:
  assumes "s \<le> j" and "j + n \<le> e"
  shows "sublist (take n (drop j xs)) (take (e - s) (drop s xs))"
proof -
  have "drop (j - s) (take (e - s) (drop s xs)) = take (e - j) (drop j xs)"
    using assms by (simp add: drop_take)
  then have "take n (drop (j - s) (take (e - s) (drop s xs))) = take n (drop j xs)"
    using assms by (simp add: min_def)
  moreover have "sublist (take n (drop (j - s) (take (e - s) (drop s xs)))) (take (e - s) (drop s xs))"
    by (meson sublist_take sublist_drop sublist_order.order_trans)
  ultimately show ?thesis by simp
qed

lemma sublist_pad: "sublist xs ys \<Longrightarrow> sublist xs (ps @ ys @ ss)"
proof -
  assume "sublist xs ys"
  then obtain p1 s1 where "ys = p1 @ xs @ s1" by (auto simp: sublist_def)
  then have "ps @ ys @ ss = (ps @ p1) @ xs @ (s1 @ ss)" by simp
  then show ?thesis unfolding sublist_def by blast
qed

lemma snippet_not_found:
  "\<not> sublist (lower q) (lower text) \<Longrightarrow>
     snippet text q w = (if text = [] then [] else take (w * 2) text @ ''...'')"
  by (simp add: snippet_def find_def find_from_not_found)

lemma snippet_found:
  assumes "sublist (lower q) (lower text)"
  shows "\<exists>j. find (lower text) (lower q) = int j \<and> j + length q \<le> length text
     \<and> lower (take (length q) (drop j text)) = lower q
     \<and> sublist (take (length q) (drop j text)) (snippet text q w)"
proof -
  from find_from_found [OF assms, of 0] obtain j where
    j: "find (lower text) (lower q) = int j" "prefix (lower q) (drop j (lower text))"
       "j \<le> length text"
    by (auto simp: find_def lower_def)
  from j(2) have "length (lower q) \<le> length (drop j (lower text))"
    by (rule prefix_length_le)
  with j(3) have len: "j + length q \<le> length text"
    by (simp add: lower_def)
  from j(2) have "take (length q) (drop j (lower text)) = lower q"
    by (auto simp: prefix_def lower_def)
  then have low: "lower (take (length q) (drop j text)) = lower q"
    by (simp add: lower_def take_map drop_map)
  let ?m = "take (length q) (drop j text)"
  define st where "st = max 0 (int j - int w)"
  define en where "en = min (int (length text)) (int j + int (length q) + int w)"
  define S where "S = slice text st en"
  have core: "sublist ?m S"
  proof -
    have "nat st = j - w" by (simp add: st_def)
    moreover have "nat en = min (length text) (j + length q + w)" by (simp add: en_def)
    moreover have "sublist ?m (take (min (length text) (j + length q + w) - (j - w)) (drop (j - w) text))"
      using len by (intro sublist_slice) simp_all
    ultimately show ?thesis by (simp only: S_def slice_def)
  qed
  have "sublist ?m (snippet text q w)"
  proof (cases "text = []")
    case True
    with len show ?thesis by (simp add: snippet_def)
  next
    case False
    have nj: "int j \<noteq> - 1" by simp
    have "snippet text q w =
        (if en < int (length text) then (if st > 0 then ''...'' @ S else S) @ ''...''
         else (if st > 0 then ''...'' @ S else S))"
      unfolding snippet_def Let_def j(1) st_def [symmetric] en_def [symmetric] S_def [symmetric]
      using False nj by (simp only: if_False)
    with sublist_pad [OF core, of "''...''" "[]"] sublist_pad [OF core, of "[]" "''...''"]
      sublist_pad [OF core, of "''...''" "''...''"] core
    show ?thesis by (simp del: append_Cons)
  qed
  with j(1) len low show ?thesis by blast
qed

text \<open>
  C4, as stated, fails in its second half. With the name \<open>Stack\<close> and a description of 127
  characters that does not mention it, the query \<open>stack\<close> hits through the name; the snippet is
  taken from the description alone: its first 120 characters and an ellipsis, which neither
  contain the query nor are the whole description.
\<close>

theorem keyword_snippet_counterexample:
  "keyword_search long_engine ''stack'' =
     [(''stack'', \<lparr>k_name = ''Stack'', k_snippet = take 120 long_description @ ''...''\<rparr>)]
   \<and> \<not> sublist (lower ''stack'') (lower (take 120 long_description @ ''...''))
   \<and> take 120 long_description @ ''...'' \<noteq> long_description
   \<and> length long_description = 127"
  by code_simp

text \<open>
  C4, amended. Over a loaded store, for every query, with all strings of the store and the
  query made of code points below 256, where lowercasing keeps every length,
  \<open>keyword_search\<close> includes a record
  exactly when the lowercased query is a substring of the lowercased concatenation of the
  record's name and description. When the lowercased query occurs in the lowercased
  description, the snippet contains the text of the description at the first occurrence, which
  is the query up to case. When it does not (the match lies in the name, or across the name
  and the description), the snippet is the first 120 characters of the description followed by
  an ellipsis, and empty for an empty description.
\<close>

theorem keyword_search_hits:
  assumes "KnowledgeGraphSearch_init fs file a = Inr (e, a')"
  shows "(\<forall>k. k \<in> fst ` set (keyword_search e q) \<longleftrightarrow>
            (\<exists>v. (k, v) \<in> set (graph e)
               \<and> sublist (lower q) (lower (get (name (snd v)) [] @ get (description (snd v)) []))))
     \<and> (\<forall>k h. (k, h) \<in> set (keyword_search e q) \<longrightarrow>
            (\<exists>v desc. (k, v) \<in> set (graph e) \<and> desc = get (description (snd v)) []
               \<and> k_name h = get (name (snd v)) []
               \<and> (sublist (lower q) (lower desc) \<longrightarrow>
                    (\<exists>j. find (lower desc) (lower q) = int j \<and> j + length q \<le> length desc
                       \<and> lower (take (length q) (drop j desc)) = lower q
                       \<and> sublist (take (length q) (drop j desc)) (k_snippet h)))
               \<and> (\<not> sublist (lower q) (lower desc) \<longrightarrow>
                    k_snippet h = (if desc = [] then [] else take 120 desc @ ''...''))))"
proof -
  note ks = keyword_search_loaded [OF assms, of q]
  have 1: "\<forall>k. k \<in> fst ` set (keyword_search e q) \<longleftrightarrow>
            (\<exists>v. (k, v) \<in> set (graph e)
               \<and> sublist (lower q) (lower (get (name (snd v)) [] @ get (description (snd v)) [])))"
    unfolding ks by force
  have 2: "\<exists>v desc. (k, v) \<in> set (graph e) \<and> desc = get (description (snd v)) []
               \<and> k_name h = get (name (snd v)) []
               \<and> (sublist (lower q) (lower desc) \<longrightarrow>
                    (\<exists>j. find (lower desc) (lower q) = int j \<and> j + length q \<le> length desc
                       \<and> lower (take (length q) (drop j desc)) = lower q
                       \<and> sublist (take (length q) (drop j desc)) (k_snippet h)))
               \<and> (\<not> sublist (lower q) (lower desc) \<longrightarrow>
                    k_snippet h = (if desc = [] then [] else take 120 desc @ ''...''))"
    if "(k, h) \<in> set (keyword_search e q)" for k h
  proof -
    from that obtain v where v: "(k, v) \<in> set (graph e)"
      and h: "h = \<lparr>k_name = get (name (snd v)) [],
                   k_snippet = snippet (get (description (snd v)) []) q 60\<rparr>"
      unfolding ks by auto
    let ?desc = "get (description (snd v)) []"
    have c: "k_name h = get (name (snd v)) []" by (simp add: h)
    have a: "sublist (lower q) (lower ?desc) \<longrightarrow>
            (\<exists>j. find (lower ?desc) (lower q) = int j \<and> j + length q \<le> length ?desc
               \<and> lower (take (length q) (drop j ?desc)) = lower q
               \<and> sublist (take (length q) (drop j ?desc)) (k_snippet h))"
      using snippet_found [of q ?desc 60] by (simp add: h)
    have b: "\<not> sublist (lower q) (lower ?desc) \<longrightarrow>
            k_snippet h = (if ?desc = [] then [] else take 120 ?desc @ ''...'')"
      using snippet_not_found [of q ?desc 60] by (simp add: h)
    show ?thesis
      by (rule exI [of _ v], rule exI [of _ ?desc]) (intro conjI v refl c a b)
  qed
  from 1 2 show ?thesis by blast
qed

theorem keyword_search_hits_witness:
  "keyword_search (demo_engine 0) ''LIFO'' =
     [(''stack'', \<lparr>k_name = ''Stack'', k_snippet = ''A LIFO structure.''\<rparr>)]
   \<and> (\<exists>j. find (lower ''A LIFO structure.'') (lower ''LIFO'') = int j
         \<and> lower (take (length ''LIFO'') (drop j ''A LIFO structure.'')) = lower ''LIFO''
         \<and> sublist (take (length ''LIFO'') (drop j ''A LIFO structure.'')) ''A LIFO structure.'')"
proof -
  let ?h = "\<lparr>k_name = ''Stack'', k_snippet = ''A LIFO structure.''\<rparr>"
  have v: "keyword_search (demo_engine 0) ''LIFO'' = [(''stack'', ?h)]"
    by code_simp
  have s: "sublist (lower ''LIFO'') (lower ''A LIFO structure.'')" by code_simp
  have m: "(''stack'', ?h) \<in> set (keyword_search (demo_engine 0) ''LIFO'')"
    by (simp add: v)
  from keyword_search_hits [OF demo_engine_init, of 0 "''LIFO''", THEN conjunct2, THEN spec,
      THEN spec, THEN mp, OF m]
  obtain vv desc where vv: "(''stack'', vv) \<in> set (graph (demo_engine 0))"
    and desc: "desc = get (description (snd vv)) []"
    and found: "sublist (lower ''LIFO'') (lower desc) \<longrightarrow>
       (\<exists>j. find (lower desc) (lower ''LIFO'') = int j \<and> j + length ''LIFO'' \<le> length desc
          \<and> lower (take (length ''LIFO'') (drop j desc)) = lower ''LIFO''
          \<and> sublist (take (length ''LIFO'') (drop j desc)) (k_snippet ?h))"
    by (elim exE conjE)
  from vv have "vv = (0, stack_concept)" by (simp add: demo_engine_def)
  with desc have d: "desc = ''A LIFO structure.''" by (simp add: stack_concept_def get_def)
  from found [unfolded d, THEN mp, OF s] obtain j where
    j1: "find (lower ''A LIFO structure.'') (lower ''LIFO'') = int j" and
    j3: "lower (take (length ''LIFO'') (drop j ''A LIFO structure.'')) = lower ''LIFO''" and
    j4: "sublist (take (length ''LIFO'') (drop j ''A LIFO structure.'')) (k_snippet ?h)"
    by blast
  have "\<exists>j. find (lower ''A LIFO structure.'') (lower ''LIFO'') = int j
         \<and> lower (take (length ''LIFO'') (drop j ''A LIFO structure.'')) = lower ''LIFO''
         \<and> sublist (take (length ''LIFO'') (drop j ''A LIFO structure.'')) ''A LIFO structure.''"
    by (rule exI [of _ j]) (use j1 j3 j4 in simp)
  with v show ?thesis by simp
qed

section \<open>The empty query\<close>

lemma normalize_key_Nil: "normalize_key [] = []"
  by code_simp

lemma snippet_empty_query:
  "snippet text [] 60 = (if length text \<le> 60 then text else take 60 text @ ''...'')"
proof (cases "text")
  case Nil
  then show ?thesis by (simp add: snippet_def)
next
  case (Cons c cs)
  then show ?thesis
    by (simp add: snippet_def find_def lower_def slice_def Let_def min_def)
qed

lemma get_close_matches_empty_word:
  assumes "[] \<notin> set possibilities"
  shows "get_close_matches [] possibilities 5 (3 / 5) = Inr []"
proof -
  have "real_quick_ratio x [] = 0" if "x \<in> set possibilities" for x
    using that assms by (auto simp: real_quick_ratio_def calculate_ratio_def Let_def)
  then have "filter (\<lambda>x. real_quick_ratio x [] \<ge> 3 / 5
        \<and> quick_ratio x [] \<ge> 3 / 5 \<and> ratio x [] \<ge> 3 / 5) possibilities = []"
    by (auto simp: filter_empty_conv)
  then show ?thesis
    by (simp add: get_close_matches_def nlargest_def)
qed

text \<open>
  C9, as stated, fails: on the empty query \<open>keyword_search\<close> returns every record of the
  store, since the empty string is a substring of every text.
\<close>

theorem empty_query_keyword_counterexample:
  "keyword_search (demo_engine 0) [] =
     [(''stack'', \<lparr>k_name = ''Stack'', k_snippet = ''A LIFO structure.''\<rparr>),
      (''binary_search'', \<lparr>k_name = ''Binary Search'', k_snippet = ''Searches a sorted array.''\<rparr>)]"
  by code_simp

text \<open>
  C9, amended. Over a loaded store the empty query raises no exception in any of the four
  strategies. The keyword strategy returns every record of the store, each with the first 60
  characters of its description as snippet. The exact and fuzzy strategies return nothing
  unless the empty string is a key of the store, and the relation strategy returns nothing
  unless a record carries the empty string as a tag.
\<close>

theorem empty_query_results:
  assumes "KnowledgeGraphSearch_init fs file a = Inr (e, a')"
  shows "(\<exists>c. comprehensive_search e [] = Inr c)
     \<and> keyword_search e [] =
         map (\<lambda>(k, v). (k, \<lparr>k_name = get (name (snd v)) [],
                k_snippet = (if length (get (description (snd v)) []) \<le> 60
                             then get (description (snd v)) []
                             else take 60 (get (description (snd v)) []) @ ''...'')\<rparr>)) (graph e)
     \<and> ([] \<notin> set (concept_keys e) \<longrightarrow>
          exact_search e [] = None \<and> fuzzy_search e [] 5 (3 / 5) = Inr [])
     \<and> ((\<forall>v \<in> snd ` set (graph e). [] \<notin> set (get (relations (snd v)) [])) \<longrightarrow>
          relation_search e [] = [])"
proof -
  have 1: "\<exists>c. comprehensive_search e [] = Inr c"
    using comprehensive_search_total [OF assms, of "[]"] by blast
  have 2: "keyword_search e [] =
         map (\<lambda>(k, v). (k, \<lparr>k_name = get (name (snd v)) [],
                k_snippet = (if length (get (description (snd v)) []) \<le> 60
                             then get (description (snd v)) []
                             else take 60 (get (description (snd v)) []) @ ''...'')\<rparr>)) (graph e)"
    unfolding keyword_search_loaded [OF assms] snippet_empty_query
    by (simp add: lower_def)
  have 3: "exact_search e [] = None \<and> fuzzy_search e [] 5 (3 / 5) = Inr []"
    if "[] \<notin> set (concept_keys e)"
  proof -
    from that init_distinct(2) [OF assms] have "map_of (graph e) [] = None"
      by (simp add: map_of_eq_None_iff)
    with that show ?thesis
      by (simp add: exact_search_def fuzzy_search_def normalize_key_Nil get_close_matches_empty_word)
  qed
  have 4: "relation_search e [] = []"
    if "\<forall>v \<in> snd ` set (graph e). [] \<notin> set (get (relations (snd v)) [])"
  proof -
    from that have "filter (\<lambda>(k, v). lower [] \<in> set (map lower (get (relations (snd v)) []))) (graph e) = []"
      by (fastforce simp: filter_empty_conv lower_def)
    then show ?thesis
      unfolding relation_search_loaded [OF assms] by simp
  qed
  from 1 2 3 4 show ?thesis by blast
qed

theorem empty_query_results_witness:
  "comprehensive_search (demo_engine 0) [] =
     Inr \<lparr>exact = None, fuzzy = [], related = [],
          keyword = [(''stack'', \<lparr>k_name = ''Stack'', k_snippet = ''A LIFO structure.''\<rparr>),
                     (''binary_search'',
                      \<lparr>k_name = ''Binary Search'', k_snippet = ''Searches a sorted array.''\<rparr>)]\<rparr>"
proof -
  have k: "[] \<notin> set (concept_keys (demo_engine 0))" by (simp add: demo_engine_def)
  have r: "\<forall>v \<in> snd ` set (graph (demo_engine 0)). [] \<notin> set (get (relations (snd v)) [])"
    by (simp add: demo_engine_def stack_concept_def search_concept_def get_def)
  from empty_query_results [OF demo_engine_init, of 0] k r
  show ?thesis
    by (simp add: comprehensive_search_def demo_engine_def stack_concept_def search_concept_def get_def)
qed

end
